theory Spec2Isabelle
  imports Main
begin

section \<open>Data model\<close>

text \<open>
  A Python \<open>str\<close> is a sequence of Unicode code points; a character is the number
  \<open>ord\<close> returns for it.  A \<open>dict\<close> keeps its keys in insertion order, so it is an
  association list whose keys are distinct; integer IDs are Python integers that are
  never negative here, hence natural numbers.
\<close>

type_synonym uchar = nat
type_synonym ustring = "uchar list"
type_synonym ('k, 'v) dict = "('k \<times> 'v) list"

datatype error = KeyError | IndexError | AssertionError | TypeError | ValueError

definition bind_err :: "error + 'a \<Rightarrow> ('a \<Rightarrow> error + 'b) \<Rightarrow> error + 'b" where
  "bind_err m f = (case m of Inl e \<Rightarrow> Inl e | Inr x \<Rightarrow> f x)"

text \<open>A list comprehension whose body may raise: the first failure aborts it.\<close>

fun mapM :: "('a \<Rightarrow> error + 'b) \<Rightarrow> 'a list \<Rightarrow> error + 'b list" where
  "mapM f [] = Inr []"
| "mapM f (x # xs) =
     (case f x of
        Inl e \<Rightarrow> Inl e
      | Inr y \<Rightarrow> (case mapM f xs of Inl e \<Rightarrow> Inl e | Inr ys \<Rightarrow> Inr (y # ys)))"

subsection \<open>Dictionaries\<close>

definition dict_keys :: "('k, 'v) dict \<Rightarrow> 'k list" where
  "dict_keys d = map fst d"

text \<open>\<open>k in d\<close>\<close>

definition dict_contains :: "('k, 'v) dict \<Rightarrow> 'k \<Rightarrow> bool" where
  "dict_contains d k = (k \<in> set (dict_keys d))"

text \<open>\<open>d[k] = v\<close>: an existing key keeps its place, a new key goes last.\<close>

fun dict_set :: "('k, 'v) dict \<Rightarrow> 'k \<Rightarrow> 'v \<Rightarrow> ('k, 'v) dict" where
  "dict_set [] k v = [(k, v)]"
| "dict_set ((k', v') # d) k v =
     (if k' = k then (k, v) # d else (k', v') # dict_set d k v)"

text \<open>\<open>d[k]\<close>\<close>

definition dict_getitem :: "('k, 'v) dict \<Rightarrow> 'k \<Rightarrow> error + 'v" where
  "dict_getitem d k = (case map_of d k of None \<Rightarrow> Inl KeyError | Some v \<Rightarrow> Inr v)"

text \<open>\<open>d.get(k, default)\<close>\<close>

definition dict_get :: "('k, 'v) dict \<Rightarrow> 'k \<Rightarrow> 'v \<Rightarrow> 'v" where
  "dict_get d k dflt = (case map_of d k of None \<Rightarrow> dflt | Some v \<Rightarrow> v)"

text \<open>\<open>{i: c for c, i in d.items()}\<close>\<close>

definition dict_invert :: "('k, 'v) dict \<Rightarrow> ('v, 'k) dict" where
  "dict_invert d = fold (\<lambda>(c, i) m. dict_set m i c) d []"

text \<open>\<open>xs[i] = v\<close> with Python's negative indices.\<close>

definition list_setitem :: "'a list \<Rightarrow> int \<Rightarrow> 'a \<Rightarrow> error + 'a list" where
  "list_setitem xs i v =
     (let n = int (length xs); j = (if i < 0 then n + i else i)
      in if 0 \<le> j \<and> j < n then Inr (xs[nat j := v]) else Inl IndexError)"

subsection \<open>Strings\<close>

definition ustr :: "string \<Rightarrow> ustring" where
  "ustr s = map of_char s"

definition UNK :: ustring where
  "UNK = ustr ''<UNK>''"

definition PAD :: ustring where
  "PAD = ustr ''<PAD>''"

text \<open>\<open>s.split(sep)\<close> for a one-character separator.\<close>

fun split_on :: "uchar \<Rightarrow> ustring \<Rightarrow> ustring list" where
  "split_on sep [] = [[]]"
| "split_on sep (c # cs) =
     (if c = sep then [] # split_on sep cs
      else (case split_on sep cs of [] \<Rightarrow> [[c]] | p # ps \<Rightarrow> (c # p) # ps))"

text \<open>\<open>sep.join(parts)\<close>\<close>

fun join :: "ustring \<Rightarrow> ustring list \<Rightarrow> ustring" where
  "join sep [] = []"
| "join sep [x] = x"
| "join sep (x # y # ys) = x @ sep @ join sep (y # ys)"

text \<open>
  The line boundaries of \<open>str.splitlines\<close>: LF, VT, FF, CR, FS, GS, RS, NEL, LS and PS;
  CR LF counts once.
\<close>

definition is_linebreak :: "uchar \<Rightarrow> bool" where
  "is_linebreak c = (c \<in> {10, 11, 12, 13, 28, 29, 30, 133, 8232, 8233})"

fun splitlines_from :: "ustring \<Rightarrow> ustring \<Rightarrow> ustring list" where
  "splitlines_from cur [] = (if cur = [] then [] else [rev cur])"
| "splitlines_from cur (c # cs) =
     (if c = 13 \<and> cs \<noteq> [] \<and> hd cs = 10 then rev cur # splitlines_from [] (tl cs)
      else if is_linebreak c then rev cur # splitlines_from [] cs
      else splitlines_from (c # cur) cs)"

definition splitlines :: "ustring \<Rightarrow> ustring list" where
  "splitlines s = splitlines_from [] s"

subsection \<open>What the program takes from outside\<close>

text \<open>
  The Unicode tables behind \<open>str.isspace\<close>, \<open>isdigit\<close>, \<open>islower\<close>, \<open>isupper\<close> and
  \<open>lower\<close>, the MeCab tagger's \<open>parse\<close>, and the order in which a Python \<open>set\<close> of
  strings is iterated are no part of the repository: they are parameters.
\<close>

record runtime =
  isspace :: "uchar \<Rightarrow> bool"
  isdigit :: "uchar \<Rightarrow> bool"
  islower :: "uchar \<Rightarrow> bool"
  isupper :: "uchar \<Rightarrow> bool"
  lower :: "ustring \<Rightarrow> ustring"
  parse :: "ustring \<Rightarrow> ustring"
  iter_set :: "ustring list \<Rightarrow> ustring list"

section \<open>Module functions\<close>

definition rstrip :: "runtime \<Rightarrow> ustring \<Rightarrow> ustring" where
  "rstrip rt s = rev (dropWhile (isspace rt) (rev s))"

text \<open>The loop of \<open>tokenize\<close> over the chunks, with its two accumulators.\<close>

fun tokenize_loop ::
  "ustring list \<Rightarrow> ustring list \<Rightarrow> ustring list \<Rightarrow> error + (ustring list \<times> ustring list)"
where
  "tokenize_loop words poses [] = Inr (words, poses)"
| "tokenize_loop words poses (chunk # chunks) =
     (if chunk = [] then tokenize_loop words poses chunks
      else
        let chunk_splitted = split_on 9 chunk;
            surface = chunk_splitted ! 0
        in if length chunk_splitted < 2 then Inl IndexError
           else
             let feature = split_on 44 (chunk_splitted ! 1);
                 pos = join (ustr ''-'') (take 3 feature)
             in tokenize_loop (words @ [surface]) (poses @ [pos]) chunks)"

definition tokenize :: "runtime \<Rightarrow> ustring \<Rightarrow> error + (ustring list \<times> ustring list)" where
  "tokenize rt text = tokenize_loop [] [] (butlast (splitlines (parse rt (rstrip rt text))))"

text \<open>The character class \<open>[0-9]\<close> together with the full-width digits U+FF10 to U+FF19.\<close>

definition normalize_number :: "ustring \<Rightarrow> ustring" where
  "normalize_number text =
     map (\<lambda>c. if (48 \<le> c \<and> c \<le> 57) \<or> (0xFF10 \<le> c \<and> c \<le> 0xFF19) then 48 else c) text"

definition is_hiragana :: "uchar \<Rightarrow> bool" where
  "is_hiragana ch = (0x3040 \<le> ch \<and> ch \<le> 0x309F)"

definition is_katakana :: "uchar \<Rightarrow> bool" where
  "is_katakana ch = (0x30A0 \<le> ch \<and> ch \<le> 0x30FF)"

definition get_character_type :: "runtime \<Rightarrow> uchar \<Rightarrow> nat" where
  "get_character_type rt ch =
     (if isspace rt ch then 1
      else if isdigit rt ch then 2
      else if islower rt ch then 3
      else if isupper rt ch then 4
      else if is_hiragana ch then 5
      else if is_katakana ch then 6
      else 7)"

section \<open>StaticPreprocessor\<close>

record static_preprocessor =
  lowercase :: bool
  num_norm :: bool
  vocab_init :: "(ustring, nat) dict"
  word_dic :: "(ustring, nat) dict"
  char_dic :: "(ustring, nat) dict"
  pos_dic :: "(ustring, nat) dict"
  label_dic :: "(ustring, nat) dict"
  bies_dic :: "(ustring, nat) dict"
  char_type_dic :: "(ustring, nat) dict"

definition StaticPreprocessor_init ::
  "bool \<Rightarrow> bool \<Rightarrow> (ustring, nat) dict option \<Rightarrow> static_preprocessor" where
  "StaticPreprocessor_init lc nn vi =
     \<lparr> lowercase = lc,
       num_norm = nn,
       vocab_init = (case vi of None \<Rightarrow> [] | Some d \<Rightarrow> d),
       word_dic = [(PAD, 0), (UNK, 1)],
       char_dic = [(PAD, 0), (UNK, 1)],
       pos_dic = [(PAD, 0), (UNK, 1)],
       label_dic = [(PAD, 0)],
       bies_dic = [(ustr ''B'', 1), (ustr ''I'', 2), (ustr ''E'', 3), (ustr ''S'', 4)],
       char_type_dic = [(PAD, 0)] \<rparr>"

text \<open>The text of a document as \<open>fit\<close> and \<open>transform\<close> both prepare it.\<close>

definition prepare_text :: "runtime \<Rightarrow> static_preprocessor \<Rightarrow> ustring list \<Rightarrow> ustring" where
  "prepare_text rt sp doc =
     (let text = concat doc;
          text = (if lowercase sp then lower rt text else text);
          text = (if num_norm sp then normalize_number text else text)
      in text)"

subsection \<open>fit\<close>

definition fit_char :: "uchar \<Rightarrow> static_preprocessor \<Rightarrow> static_preprocessor" where
  "fit_char c sp =
     (if dict_contains (char_dic sp) [c] then sp
      else sp\<lparr>char_dic := dict_set (char_dic sp) [c] (length (char_dic sp))\<rparr>)"

definition fit_word :: "ustring \<Rightarrow> static_preprocessor \<Rightarrow> static_preprocessor" where
  "fit_word w sp =
     (if dict_contains (word_dic sp) w then sp
      else fold fit_char w (sp\<lparr>word_dic := dict_set (word_dic sp) w (length (word_dic sp))\<rparr>))"

definition fit_pos :: "ustring \<Rightarrow> static_preprocessor \<Rightarrow> static_preprocessor" where
  "fit_pos p sp =
     (if dict_contains (pos_dic sp) p then sp
      else sp\<lparr>pos_dic := dict_set (pos_dic sp) p (length (pos_dic sp))\<rparr>)"

definition fit_label :: "ustring \<Rightarrow> static_preprocessor \<Rightarrow> static_preprocessor" where
  "fit_label t sp = sp\<lparr>label_dic := dict_set (label_dic sp) t (length (label_dic sp))\<rparr>"

definition fit_doc ::
  "runtime \<Rightarrow> ustring list \<Rightarrow> static_preprocessor \<Rightarrow> error + static_preprocessor" where
  "fit_doc rt doc sp =
     (case tokenize rt (prepare_text rt sp doc) of
        Inl e \<Rightarrow> Inl e
      | Inr (words, poses) \<Rightarrow> Inr (fold fit_pos poses (fold fit_word words sp)))"

fun fit_docs ::
  "runtime \<Rightarrow> ustring list list \<Rightarrow> static_preprocessor \<Rightarrow> error + static_preprocessor" where
  "fit_docs rt [] sp = Inr sp"
| "fit_docs rt (doc # docs) sp =
     (case fit_doc rt doc sp of Inl e \<Rightarrow> Inl e | Inr sp' \<Rightarrow> fit_docs rt docs sp')"

text \<open>\<open>y=None\<close> reaches \<open>itertools.chain(*y)\<close> after the documents and raises there.\<close>

definition fit ::
  "runtime \<Rightarrow> static_preprocessor \<Rightarrow> ustring list list \<Rightarrow> ustring list list option
     \<Rightarrow> error + static_preprocessor" where
  "fit rt sp X y =
     (case fit_docs rt X sp of
        Inl e \<Rightarrow> Inl e
      | Inr sp' \<Rightarrow>
          (case y of
             None \<Rightarrow> Inl TypeError
           | Some ys \<Rightarrow> Inr (fold fit_label (iter_set rt (concat ys)) sp')))"

subsection \<open>transform\<close>

text \<open>\<open>[self.word_dic.get(w, self.word_dic[UNK]) for _ in range(len(w))]\<close>\<close>

definition word_ids_of :: "static_preprocessor \<Rightarrow> ustring \<Rightarrow> error + nat list" where
  "word_ids_of sp w =
     mapM (\<lambda>_. bind_err (dict_getitem (word_dic sp) UNK)
                  (\<lambda>unk. Inr (dict_get (word_dic sp) w unk)))
          [0..<length w]"

text \<open>\<open>[self.pos_dic.get(p, self.pos_dic[UNK]) for _ in range(len(w))]\<close>\<close>

definition pos_ids_of :: "static_preprocessor \<Rightarrow> ustring \<times> ustring \<Rightarrow> error + nat list" where
  "pos_ids_of sp wp =
     (case wp of (w, p) \<Rightarrow>
        mapM (\<lambda>_. bind_err (dict_getitem (pos_dic sp) UNK)
                     (\<lambda>unk. Inr (dict_get (pos_dic sp) p unk)))
             [0..<length w])"

definition get_char_ids :: "static_preprocessor \<Rightarrow> ustring \<Rightarrow> error + nat list" where
  "get_char_ids sp word =
     mapM (\<lambda>c. bind_err (dict_getitem (char_dic sp) UNK)
                  (\<lambda>unk. Inr (dict_get (char_dic sp) [c] unk)))
          word"

definition get_char_types :: "runtime \<Rightarrow> ustring \<Rightarrow> nat list" where
  "get_char_types rt word = map (get_character_type rt) word"

definition get_bies :: "static_preprocessor \<Rightarrow> ustring \<Rightarrow> error + nat list" where
  "get_bies sp word =
     (if length word = 1
      then bind_err (dict_getitem (bies_dic sp) (ustr ''S'')) (\<lambda>s. Inr [s])
      else
        bind_err (dict_getitem (bies_dic sp) (ustr ''I'')) (\<lambda>i.
        let res = replicate (length word) i in
        bind_err (dict_getitem (bies_dic sp) (ustr ''B'')) (\<lambda>b.
        bind_err (list_setitem res 0 b) (\<lambda>res.
        bind_err (dict_getitem (bies_dic sp) (ustr ''E'')) (\<lambda>e.
        list_setitem res (- 1) e)))))"

type_synonym doc_features = "nat list \<times> nat list \<times> nat list \<times> nat list \<times> nat list"
type_synonym features =
  "nat list list \<times> nat list list \<times> nat list list \<times> nat list list \<times> nat list list"

text \<open>One turn of the loop over the documents, assertions included.\<close>

definition transform_doc ::
  "runtime \<Rightarrow> static_preprocessor \<Rightarrow> ustring list \<Rightarrow> error + doc_features" where
  "transform_doc rt sp doc =
     bind_err (tokenize rt (prepare_text rt sp doc)) (\<lambda>(words, poses).
     bind_err (mapM (word_ids_of sp) words) (\<lambda>word_ids.
     bind_err (mapM (get_char_ids sp) words) (\<lambda>char_ids.
     bind_err (mapM (get_bies sp) words) (\<lambda>bies_ids.
     bind_err (mapM (pos_ids_of sp) (zip words poses)) (\<lambda>pos_ids.
     let char_types = map (get_char_types rt) words;
         word_ids = concat word_ids;
         char_ids = concat char_ids;
         bies_ids = concat bies_ids;
         pos_ids = concat pos_ids;
         char_types = concat char_types
     in if length char_ids \<noteq> length word_ids then Inl AssertionError
        else if length bies_ids \<noteq> length word_ids then Inl AssertionError
        else if length pos_ids \<noteq> length word_ids then Inl AssertionError
        else Inr (word_ids, char_ids, bies_ids, pos_ids, char_types))))))"

definition collect :: "doc_features list \<Rightarrow> features" where
  "collect rows =
     (map (\<lambda>(w, c, b, p, t). w) rows,
      map (\<lambda>(w, c, b, p, t). c) rows,
      map (\<lambda>(w, c, b, p, t). b) rows,
      map (\<lambda>(w, c, b, p, t). p) rows,
      map (\<lambda>(w, c, b, p, t). t) rows)"

text \<open>
  \<open>transform\<close> is a method of an object with mutable fields: it returns the object as it
  leaves it, next to its result.  The source assigns to no field.
\<close>

definition transform ::
  "runtime \<Rightarrow> static_preprocessor \<Rightarrow> ustring list list \<Rightarrow> ustring list list option
     \<Rightarrow> static_preprocessor \<times> (error + features \<times> nat list list option)" where
  "transform rt sp X y =
     (sp,
      bind_err (mapM (transform_doc rt sp) X) (\<lambda>rows.
      case y of
        None \<Rightarrow> Inr (collect rows, None)
      | Some ys \<Rightarrow>
          bind_err (mapM (mapM (dict_getitem (label_dic sp))) ys) (\<lambda>y'.
          Inr (collect rows, Some y'))))"

definition fit_transform ::
  "runtime \<Rightarrow> static_preprocessor \<Rightarrow> ustring list list \<Rightarrow> ustring list list option
     \<Rightarrow> error + (static_preprocessor \<times> (error + features \<times> nat list list option))" where
  "fit_transform rt sp X y = bind_err (fit rt sp X y) (\<lambda>sp'. Inr (transform rt sp' X y))"

subsection \<open>inverse_transform\<close>

definition inverse_transform ::
  "static_preprocessor \<Rightarrow> nat list list option \<Rightarrow> nat list list option
     \<Rightarrow> error + ustring list list" where
  "inverse_transform sp X docs =
     (case X of
        Some X' \<Rightarrow>
          let id2char = dict_invert (char_dic sp)
          in mapM (mapM (dict_getitem id2char)) X'
      | None \<Rightarrow>
          let id2label = dict_invert (label_dic sp)
          in (case docs of
                None \<Rightarrow> Inl TypeError
              | Some ds \<Rightarrow> mapM (mapM (dict_getitem id2label)) ds))"

section \<open>DynamicPreprocessor\<close>

record dynamic_preprocessor =
  n_labels :: nat

text \<open>
  Modelled from the spec: Keras' \<open>pad_sequences(seqs, padding='post')\<close> is no part of the
  repository.  It appends the padding value 0 to every sequence up to the length of the
  longest one and truncates nothing; the maximum of no lengths at all does not exist
  (NumPy raises \<open>ValueError\<close>).
\<close>

definition pad_sequences :: "nat list list \<Rightarrow> error + nat list list" where
  "pad_sequences seqs =
     (if seqs = [] then Inl ValueError
      else
        let maxlen = fold max (map length seqs) 0
        in Inr (map (\<lambda>s. s @ replicate (maxlen - length s) 0) seqs))"

text \<open>
  Modelled from the spec: Keras' \<open>to_categorical(y, num_classes)\<close> is no part of the
  repository.  Each ID becomes the row of width \<open>num_classes\<close> that is 1 at the ID and 0
  elsewhere; an ID outside the width is an index error, and a width of 0 stands for one
  more than the largest ID.
\<close>

definition one_hot :: "nat \<Rightarrow> nat \<Rightarrow> nat list" where
  "one_hot width i = map (\<lambda>j. if j = i then 1 else 0) [0..<width]"

definition to_categorical :: "nat list \<Rightarrow> nat \<Rightarrow> error + nat list list" where
  "to_categorical y num_classes =
     (if num_classes = 0 \<and> y = [] then Inl ValueError
      else
        let width = (if num_classes = 0 then fold max y 0 + 1 else num_classes)
        in mapM (\<lambda>i. if i < width then Inr (one_hot width i) else Inl IndexError) y)"

definition DynamicPreprocessor_transform ::
  "dynamic_preprocessor \<Rightarrow> features \<Rightarrow> nat list list option
     \<Rightarrow> error + features \<times> nat list list list option" where
  "DynamicPreprocessor_transform dp X y =
     (case X of (words, chars, bies, poses, types) \<Rightarrow>
        bind_err (pad_sequences words) (\<lambda>words.
        bind_err (pad_sequences chars) (\<lambda>chars.
        bind_err (pad_sequences bies) (\<lambda>bies.
        bind_err (pad_sequences poses) (\<lambda>poses.
        bind_err (pad_sequences types) (\<lambda>types.
        case y of
          None \<Rightarrow> Inr ((words, chars, bies, poses, types), None)
        | Some y0 \<Rightarrow>
            bind_err (pad_sequences y0) (\<lambda>y1.
            bind_err (mapM (\<lambda>row. to_categorical row (n_labels dp)) y1) (\<lambda>y2.
            Inr ((words, chars, bies, poses, types), Some y2)))))))))"

section \<open>Reference notions and a sample runtime\<close>

text \<open>The strings of a list in the order of their first occurrence, those already seen left out.\<close>

fun first_occurrences :: "'a list \<Rightarrow> 'a list \<Rightarrow> 'a list" where
  "first_occurrences seen [] = []"
| "first_occurrences seen (x # xs) =
     (if x \<in> set seen then first_occurrences seen xs
      else x # first_occurrences (seen @ [x]) xs)"

text \<open>The dictionary that numbers a list of keys from 0 in the order of the list.\<close>

definition numbered :: "'k list \<Rightarrow> ('k, nat) dict" where
  "numbered ks = zip ks [0..<length ks]"

text \<open>
  The guarded insertion that the loops of \<open>fit\<close> over words, characters and POS tags
  share: a key already present is skipped, a new key gets the current size as its ID.
\<close>

definition register :: "'k \<Rightarrow> ('k, nat) dict \<Rightarrow> ('k, nat) dict" where
  "register k d = (if dict_contains d k then d else dict_set d k (length d))"

text \<open>
  What the loop over the words maintains: both sentinels are words of the dictionary, and
  every character of every other word of the dictionary is in the character dictionary.
\<close>

definition chars_covered :: "static_preprocessor \<Rightarrow> bool" where
  "chars_covered sp =
     (dict_contains (word_dic sp) PAD \<and> dict_contains (word_dic sp) UNK \<and>
      (\<forall>w \<in> set (dict_keys (word_dic sp)).
         w \<noteq> PAD \<longrightarrow> w \<noteq> UNK \<longrightarrow> (\<forall>c \<in> set w. dict_contains (char_dic sp) [c])))"

text \<open>
  The characters, as the one-character strings the character dictionary has for keys, of
  the words other than the two sentinel strings.
\<close>

definition word_chars :: "ustring list \<Rightarrow> ustring list" where
  "word_chars ws = map (\<lambda>c. [c]) (concat (filter (\<lambda>w. w \<noteq> PAD \<and> w \<noteq> UNK) ws))"

text \<open>The words and POS tags of one document, and of each document of a list.\<close>

definition doc_tokens ::
  "runtime \<Rightarrow> static_preprocessor \<Rightarrow> ustring list \<Rightarrow> error + (ustring list \<times> ustring list)"
where
  "doc_tokens rt sp doc = tokenize rt (prepare_text rt sp doc)"

definition corpus_tokens ::
  "runtime \<Rightarrow> static_preprocessor \<Rightarrow> ustring list list
     \<Rightarrow> error + (ustring list \<times> ustring list) list" where
  "corpus_tokens rt sp X = mapM (doc_tokens rt sp) X"

text \<open>
  The five feature sequences a document with given words and POS tags is expected to
  get: per word, its ID (or that of the unknown sentinel, 1) once per character, the ID of
  each character (or 1), Single (4) for a word of one character and otherwise Begin (1),
  Inside (2) for the characters between, End (3), the ID of the POS tag (or 1) once per
  character, and the type of each character.
\<close>

definition bies_tags :: "ustring \<Rightarrow> nat list" where
  "bies_tags w = (if length w = 1 then [4] else 1 # replicate (length w - 2) 2 @ [3])"

definition token_features ::
  "runtime \<Rightarrow> static_preprocessor \<Rightarrow> ustring list \<times> ustring list \<Rightarrow> doc_features" where
  "token_features rt sp tk =
     (concat (map (\<lambda>w. replicate (length w) (dict_get (word_dic sp) w 1)) (fst tk)),
      concat (map (\<lambda>w. map (\<lambda>c. dict_get (char_dic sp) [c] 1) w) (fst tk)),
      concat (map bies_tags (fst tk)),
      concat (map (\<lambda>(w, p). replicate (length w) (dict_get (pos_dic sp) p 1))
                  (zip (fst tk) (snd tk))),
      concat (map (map (get_character_type rt)) (fst tk)))"

text \<open>A sequence padded on the right with 0 up to a length, and the greatest length of a batch.\<close>

definition pad_to :: "nat \<Rightarrow> nat list \<Rightarrow> nat list" where
  "pad_to m s = s @ replicate (m - length s) 0"

definition longest :: "nat list list \<Rightarrow> nat" where
  "longest seqs = Max (set (map length seqs))"

text \<open>
  A small stand-in for the outside world, used to run the definitions: ASCII character
  classes, and a tagger that takes every run of characters other than the blank as a word
  with the features \<open>N,a,b,c\<close>, in MeCab's output format.
\<close>

definition sample_parse :: "ustring \<Rightarrow> ustring" where
  "sample_parse text =
     concat (map (\<lambda>w. w @ [9] @ ustr ''N,a,b,c'' @ [10]) (filter (\<lambda>w. w \<noteq> []) (split_on 32 text)))
       @ ustr ''EOS'' @ [10]"

definition sample_runtime :: runtime where
  "sample_runtime =
     \<lparr> isspace = (\<lambda>c. c \<in> {9, 10, 11, 12, 13, 28, 29, 30, 31, 32}),
       isdigit = (\<lambda>c. 48 \<le> c \<and> c \<le> 57),
       islower = (\<lambda>c. 97 \<le> c \<and> c \<le> 122),
       isupper = (\<lambda>c. 65 \<le> c \<and> c \<le> 90),
       lower = map (\<lambda>c. if 65 \<le> c \<and> c \<le> 90 then c + 32 else c),
       parse = sample_parse,
       iter_set = first_occurrences [] \<rparr>"

text \<open>
  The preprocessor that \<open>fit\<close> makes, in the sample runtime, of the one document
  \<open>Ab c\<close> with the labels B, I, O.
\<close>

definition sample_fitted :: static_preprocessor where
  "sample_fitted =
     \<lparr> lowercase = True,
       num_norm = True,
       vocab_init = [],
       word_dic = [(PAD, 0), (UNK, 1), (ustr ''ab'', 2), (ustr ''c'', 3)],
       char_dic = [(PAD, 0), (UNK, 1), (ustr ''a'', 2), (ustr ''b'', 3), (ustr ''c'', 4)],
       pos_dic = [(PAD, 0), (UNK, 1), (ustr ''N-a-b'', 2)],
       label_dic = [(PAD, 0), (ustr ''B'', 1), (ustr ''I'', 2), (ustr ''O'', 3)],
       bies_dic = [(ustr ''B'', 1), (ustr ''I'', 2), (ustr ''E'', 3), (ustr ''S'', 4)],
       char_type_dic = [(PAD, 0)] \<rparr>"


section \<open>Lists, comprehensions and dictionaries\<close>

lemma mapM_Inr:
  "(\<And>x. x \<in> set xs \<Longrightarrow> f x = Inr (g x)) \<Longrightarrow> mapM f xs = Inr (map g xs)"
  by (induction xs) auto

lemma mapM_Inr_D:
  "mapM f xs = Inr ys \<Longrightarrow> list_all2 (\<lambda>x y. f x = Inr y) xs ys"
  by (induction xs arbitrary: ys) (auto split: sum.splits)

lemma mapM_Inr_I:
  "list_all2 (\<lambda>x y. f x = Inr y) xs ys \<Longrightarrow> mapM f xs = Inr ys"
  by (induction rule: list_all2_induct) auto

lemma mapM_Inl:
  assumes "x \<in> set xs" and "f x = Inl e"
    and "\<And>x' e'. x' \<in> set xs \<Longrightarrow> f x' = Inl e' \<Longrightarrow> e' = e"
  shows "mapM f xs = Inl e"
  using assms
proof (induction xs)
  case Nil
  then show ?case by simp
next
  case (Cons a xs)
  show ?case
  proof (cases "f a")
    case (Inl e')
    have "e' = e" using Cons.prems(3) [of a e'] Inl by simp
    with Inl show ?thesis by simp
  next
    case (Inr b)
    with Cons.prems(1,2) have "x \<in> set xs" by auto
    have "mapM f xs = Inl e"
    proof (rule Cons.IH)
      show "x \<in> set xs" by fact
      show "f x = Inl e" by fact
      fix x' e'
      assume "x' \<in> set xs" and "f x' = Inl e'"
      then show "e' = e" using Cons.prems(3) [of x' e'] by simp
    qed
    with Inr show ?thesis by simp
  qed
qed

lemma dict_set_new: "k \<notin> set (map fst d) \<Longrightarrow> dict_set d k v = d @ [(k, v)]"
  by (induction d) auto

lemma numbered_snoc: "numbered (ks @ [k]) = numbered ks @ [(k, length ks)]"
  by (simp add: numbered_def)

lemma length_numbered: "length (numbered ks) = length ks"
  by (simp add: numbered_def)

lemma keys_numbered: "dict_keys (numbered ks) = ks"
  by (simp add: numbered_def dict_keys_def)

lemma register_numbered:
  "register k (numbered ks) = (if k \<in> set ks then numbered ks else numbered (ks @ [k]))"
  by (simp add: register_def dict_contains_def keys_numbered numbered_snoc length_numbered
      dict_set_new keys_numbered [unfolded dict_keys_def])

lemma fold_register_numbered:
  "fold register xs (numbered ks) = numbered (ks @ first_occurrences ks xs)"
  by (induction xs arbitrary: ks) (auto simp add: register_numbered)

lemma first_occurrences_set: "set (first_occurrences seen xs) = set xs - set seen"
  by (induction xs arbitrary: seen) auto

lemma first_occurrences_distinct: "distinct (first_occurrences seen xs)"
  by (induction xs arbitrary: seen) (auto simp add: first_occurrences_set)

lemma first_occurrences_known: "set xs \<subseteq> set seen \<Longrightarrow> first_occurrences seen xs = []"
  by (induction xs arbitrary: seen) auto

lemma first_occurrences_append:
  "first_occurrences seen (xs @ ys) =
     first_occurrences seen xs @ first_occurrences (seen @ first_occurrences seen xs) ys"
  by (induction xs arbitrary: seen) auto

lemma replicate_ends:
  assumes "2 \<le> n"
  shows "(replicate n i)[0 := b, n - Suc 0 := e] = b # replicate (n - 2) i @ [e]"
proof -
  from assms obtain m where n: "n = Suc (Suc m)"
    by (metis add_2_eq_Suc le_Suc_ex)
  have "(replicate (Suc m) i)[m := e] = replicate m i @ [e]"
    by (induction m) auto
  then show ?thesis by (simp add: n)
qed

lemma bies_dic_init:
  "bies_dic (StaticPreprocessor_init lc nn vi) = [([66], 1), ([73], 2), ([69], 3), ([83], 4)]"
  by (simp add: StaticPreprocessor_init_def ustr_def)

lemma keys_dict_set_list:
  "dict_keys (dict_set d k v) =
     (if k \<in> set (dict_keys d) then dict_keys d else dict_keys d @ [k])"
proof (induction d)
  case Nil
  show ?case by (simp add: dict_keys_def)
next
  case (Cons p d)
  then show ?case by (cases p) (force simp add: dict_keys_def)
qed

lemma keys_dict_set: "set (dict_keys (dict_set d k v)) = insert k (set (dict_keys d))"
  by (auto simp add: keys_dict_set_list)

lemma keys_register: "set (dict_keys (register k d)) = insert k (set (dict_keys d))"
  by (auto simp add: register_def keys_dict_set dict_contains_def)

lemma keys_fold_register: "set (dict_keys (fold register ks d)) = set (dict_keys d) \<union> set ks"
  by (induction ks arbitrary: d) (auto simp add: keys_register)

lemma register_known: "k \<in> set (dict_keys d) \<Longrightarrow> register k d = d"
  by (simp add: register_def dict_contains_def)

lemma fold_register_known: "set ks \<subseteq> set (dict_keys d) \<Longrightarrow> fold register ks d = d"
  by (induction ks) (auto simp add: register_known)

lemma fit_char_eq: "fit_char c sp = sp\<lparr>char_dic := register [c] (char_dic sp)\<rparr>"
  by (simp add: fit_char_def register_def)

lemma fold_fit_char:
  "fold fit_char w sp = sp\<lparr>char_dic := fold register (map (\<lambda>c. [c]) w) (char_dic sp)\<rparr>"
  by (induction w arbitrary: sp) (simp_all add: fit_char_eq)

lemma fit_word_eq:
  "fit_word w sp =
     (if dict_contains (word_dic sp) w then sp
      else sp\<lparr>word_dic := register w (word_dic sp),
              char_dic := fold register (map (\<lambda>c. [c]) w) (char_dic sp)\<rparr>)"
  by (simp add: fit_word_def fold_fit_char register_def)

lemma fit_pos_eq: "fit_pos p sp = sp\<lparr>pos_dic := register p (pos_dic sp)\<rparr>"
  by (simp add: fit_pos_def register_def)

lemma fold_fit_pos: "fold fit_pos ps sp = sp\<lparr>pos_dic := fold register ps (pos_dic sp)\<rparr>"
  by (induction ps arbitrary: sp) (simp_all add: fit_pos_eq)

lemma chars_covered_fit_word: "chars_covered sp \<Longrightarrow> chars_covered (fit_word w sp)"
  by (auto simp add: chars_covered_def fit_word_eq dict_contains_def keys_register
      keys_fold_register)

lemma fit_word_chars:
  assumes "chars_covered sp"
  shows "char_dic (fit_word w sp) =
     fold register (map (\<lambda>c. [c]) (concat (filter (\<lambda>w. w \<noteq> PAD \<and> w \<noteq> UNK) [w]))) (char_dic sp)"
proof (cases "dict_contains (word_dic sp) w")
  case True
  show ?thesis
  proof (cases "w \<noteq> PAD \<and> w \<noteq> UNK")
    case True
    with \<open>dict_contains (word_dic sp) w\<close> assms
    have "set (map (\<lambda>c. [c]) w) \<subseteq> set (dict_keys (char_dic sp))"
      by (auto simp add: chars_covered_def dict_contains_def)
    then have "fold register (map (\<lambda>c. [c]) w) (char_dic sp) = char_dic sp"
      by (rule fold_register_known)
    with True \<open>dict_contains (word_dic sp) w\<close> show ?thesis
      by (simp add: fit_word_eq)
  next
    case False
    with True show ?thesis by (auto simp add: fit_word_eq)
  qed
next
  case False
  with assms have "w \<noteq> PAD \<and> w \<noteq> UNK"
    by (auto simp add: chars_covered_def)
  with False show ?thesis by (simp add: fit_word_eq)
qed

lemma fit_word_words: "word_dic (fit_word w sp) = register w (word_dic sp)"
  by (simp add: fit_word_eq register_known dict_contains_def)

lemma fit_word_frame:
  "pos_dic (fit_word w sp) = pos_dic sp" "label_dic (fit_word w sp) = label_dic sp"
  "bies_dic (fit_word w sp) = bies_dic sp" "char_type_dic (fit_word w sp) = char_type_dic sp"
  "lowercase (fit_word w sp) = lowercase sp" "num_norm (fit_word w sp) = num_norm sp"
  "vocab_init (fit_word w sp) = vocab_init sp"
  by (simp_all add: fit_word_eq)

lemma chars_covered_fold: "chars_covered sp \<Longrightarrow> chars_covered (fold fit_word ws sp)"
  by (induction ws arbitrary: sp) (simp_all add: chars_covered_fit_word)

lemma fit_word_covered_eq:
  assumes "chars_covered sp"
  shows "fit_word w sp = sp\<lparr>word_dic := register w (word_dic sp),
      char_dic := fold register
        (map (\<lambda>c. [c]) (concat (filter (\<lambda>w. w \<noteq> PAD \<and> w \<noteq> UNK) [w]))) (char_dic sp)\<rparr>"
  using fit_word_chars [OF assms, of w] fit_word_words [of w sp] fit_word_frame [of w sp]
  by (intro static_preprocessor.equality) simp_all

lemma fold_fit_word:
  assumes "chars_covered sp"
  shows "fold fit_word ws sp =
     sp\<lparr>word_dic := fold register ws (word_dic sp),
        char_dic := fold register (word_chars ws) (char_dic sp)\<rparr>"
  using assms
proof (induction ws arbitrary: sp)
  case Nil
  then show ?case by (simp add: word_chars_def)
next
  case (Cons w ws)
  have cov: "chars_covered (fit_word w sp)"
    using Cons.prems by (rule chars_covered_fit_word)
  show ?case
    using Cons.IH [OF cov] by (simp add: fit_word_covered_eq [OF Cons.prems] word_chars_def)
qed

section \<open>What fit leaves in the dictionaries\<close>

lemma word_chars_append: "word_chars (a @ b) = word_chars a @ word_chars b"
  by (simp add: word_chars_def)

lemma doc_tokens_flags:
  "lowercase sp' = lowercase sp \<Longrightarrow> num_norm sp' = num_norm sp
     \<Longrightarrow> doc_tokens rt sp' doc = doc_tokens rt sp doc"
  by (simp add: doc_tokens_def prepare_text_def)

lemma corpus_tokens_flags:
  assumes "lowercase sp' = lowercase sp" and "num_norm sp' = num_norm sp"
  shows "corpus_tokens rt sp' X = corpus_tokens rt sp X"
proof -
  have "doc_tokens rt sp' = doc_tokens rt sp"
    by (rule ext) (rule doc_tokens_flags [OF assms])
  then show ?thesis by (simp add: corpus_tokens_def)
qed

lemma fold_fit_word_flags:
  "lowercase (fold fit_word ws sp) = lowercase sp \<and> num_norm (fold fit_word ws sp) = num_norm sp"
  by (induction ws arbitrary: sp) (simp_all add: fit_word_frame)

lemma chars_covered_pos: "chars_covered (sp\<lparr>pos_dic := d\<rparr>) = chars_covered sp"
  by (simp add: chars_covered_def)

lemma fit_doc_eq:
  assumes "chars_covered sp" and "doc_tokens rt sp doc = Inr (ws, ps)"
  shows "fit_doc rt doc sp =
     Inr (sp\<lparr>word_dic := fold register ws (word_dic sp),
             char_dic := fold register (word_chars ws) (char_dic sp),
             pos_dic := fold register ps (pos_dic sp)\<rparr>)"
  using assms(2)
  by (simp add: fit_doc_def doc_tokens_def fold_fit_pos fold_fit_word [OF assms(1)])

lemma fit_doc_covered:
  assumes "chars_covered sp" and "fit_doc rt doc sp = Inr sp'"
  shows "chars_covered sp'"
proof -
  from assms(2) obtain ws ps where "sp' = fold fit_pos ps (fold fit_word ws sp)"
    by (auto simp add: fit_doc_def split: sum.splits)
  then show ?thesis
    using chars_covered_fold [OF assms(1), of ws]
    by (simp add: fold_fit_pos chars_covered_pos)
qed

lemma fit_doc_flags:
  assumes "fit_doc rt doc sp = Inr sp'"
  shows "lowercase sp' = lowercase sp \<and> num_norm sp' = num_norm sp"
proof -
  from assms obtain ws ps where "sp' = fold fit_pos ps (fold fit_word ws sp)"
    by (auto simp add: fit_doc_def split: sum.splits)
  then show ?thesis
    using fold_fit_word_flags [of ws sp] by (simp add: fold_fit_pos)
qed

lemma fit_docs_eq:
  assumes "chars_covered sp" and "corpus_tokens rt sp X = Inr toks"
  shows "fit_docs rt X sp =
     Inr (sp\<lparr>word_dic := fold register (concat (map fst toks)) (word_dic sp),
             char_dic := fold register (word_chars (concat (map fst toks))) (char_dic sp),
             pos_dic := fold register (concat (map snd toks)) (pos_dic sp)\<rparr>)"
  using assms
proof (induction X arbitrary: sp toks)
  case Nil
  then show ?case by (auto simp add: corpus_tokens_def word_chars_def)
next
  case (Cons doc X)
  from Cons.prems(2) obtain ws ps toks' where
    tk: "doc_tokens rt sp doc = Inr (ws, ps)" and
    rest: "corpus_tokens rt sp X = Inr toks'" and
    toks: "toks = (ws, ps) # toks'"
    by (auto simp add: corpus_tokens_def split: sum.splits)
  define sp1 where "sp1 = sp\<lparr>word_dic := fold register ws (word_dic sp),
             char_dic := fold register (word_chars ws) (char_dic sp),
             pos_dic := fold register ps (pos_dic sp)\<rparr>"
  have step: "fit_doc rt doc sp = Inr sp1"
    unfolding sp1_def by (rule fit_doc_eq [OF Cons.prems(1) tk])
  have cov: "chars_covered sp1"
    by (rule fit_doc_covered [OF Cons.prems(1) step])
  have "corpus_tokens rt sp1 X = corpus_tokens rt sp X"
    by (rule corpus_tokens_flags) (simp_all add: sp1_def)
  with rest have rest1: "corpus_tokens rt sp1 X = Inr toks'" by simp
  show ?case
    using Cons.IH [OF cov rest1] step
    by (simp add: toks word_chars_append sp1_def)
qed

lemma fit_docs_Inr_tokens:
  "fit_docs rt X sp = Inr sp' \<Longrightarrow> \<exists>toks. corpus_tokens rt sp X = Inr toks"
proof (induction X arbitrary: sp)
  case Nil
  then show ?case by (simp add: corpus_tokens_def)
next
  case (Cons doc X)
  from Cons.prems obtain sp1 where
    step: "fit_doc rt doc sp = Inr sp1" and rest: "fit_docs rt X sp1 = Inr sp'"
    by (auto split: sum.splits)
  from step obtain tk where tk: "doc_tokens rt sp doc = Inr tk"
    by (auto simp add: fit_doc_def doc_tokens_def split: sum.splits)
  from Cons.IH [OF rest] obtain toks where "corpus_tokens rt sp1 X = Inr toks" by blast
  moreover have "corpus_tokens rt sp1 X = corpus_tokens rt sp X"
    using fit_doc_flags [OF step] by (intro corpus_tokens_flags) simp_all
  ultimately have "corpus_tokens rt sp X = Inr toks" by simp
  with tk show ?case by (simp add: corpus_tokens_def)
qed

lemma fold_fit_label:
  "fold fit_label ls sp =
     sp\<lparr>label_dic := fold (\<lambda>t d. dict_set d t (length d)) ls (label_dic sp)\<rparr>"
  by (induction ls arbitrary: sp) (simp_all add: fit_label_def)


lemma init_numbered:
  "word_dic (StaticPreprocessor_init lc nn vi) = numbered [PAD, UNK]"
  "char_dic (StaticPreprocessor_init lc nn vi) = numbered [PAD, UNK]"
  "pos_dic (StaticPreprocessor_init lc nn vi) = numbered [PAD, UNK]"
  "label_dic (StaticPreprocessor_init lc nn vi) = numbered [PAD]"
  by (simp_all add: StaticPreprocessor_init_def numbered_def)

lemma init_flags:
  "lowercase (StaticPreprocessor_init lc nn vi) = lc"
  "num_norm (StaticPreprocessor_init lc nn vi) = nn"
  by (simp_all add: StaticPreprocessor_init_def)

lemma init_covered: "chars_covered (StaticPreprocessor_init lc nn vi)"
  by (auto simp add: chars_covered_def init_numbered dict_contains_def keys_numbered)

lemma fit_from_init:
  assumes "fit rt (StaticPreprocessor_init lc nn vi) X y = Inr sp"
  shows "\<exists>toks ys. corpus_tokens rt (StaticPreprocessor_init lc nn vi) X = Inr toks \<and>
     y = Some ys \<and>
     word_dic sp = numbered ([PAD, UNK] @ first_occurrences [PAD, UNK] (concat (map fst toks))) \<and>
     char_dic sp = numbered ([PAD, UNK] @
        first_occurrences [PAD, UNK] (word_chars (concat (map fst toks)))) \<and>
     pos_dic sp = numbered ([PAD, UNK] @ first_occurrences [PAD, UNK] (concat (map snd toks))) \<and>
     label_dic sp = fold (\<lambda>t d. dict_set d t (length d)) (iter_set rt (concat ys)) (numbered [PAD]) \<and>
     bies_dic sp = bies_dic (StaticPreprocessor_init lc nn vi) \<and>
     char_type_dic sp = char_type_dic (StaticPreprocessor_init lc nn vi) \<and>
     lowercase sp = lc \<and> num_norm sp = nn"
proof -
  let ?i = "StaticPreprocessor_init lc nn vi"
  from assms obtain sp1 ys where
    docs: "fit_docs rt X ?i = Inr sp1" and y: "y = Some ys" and
    sp: "sp = fold fit_label (iter_set rt (concat ys)) sp1"
    by (auto simp add: fit_def split: sum.splits option.splits)
  from fit_docs_Inr_tokens [OF docs] obtain toks where
    toks: "corpus_tokens rt ?i X = Inr toks" by blast
  have sp1: "sp1 = ?i\<lparr>word_dic := fold register (concat (map fst toks)) (word_dic ?i),
             char_dic := fold register (word_chars (concat (map fst toks))) (char_dic ?i),
             pos_dic := fold register (concat (map snd toks)) (pos_dic ?i)\<rparr>"
    using fit_docs_eq [OF init_covered toks] docs by simp
  show ?thesis
    using toks y
    by (simp add: sp sp1 fold_fit_label init_numbered init_flags fold_register_numbered)
qed

section \<open>What transform computes\<close>

lemma tokenize_loop_lengths:
  "tokenize_loop ws ps chunks = Inr (ws', ps') \<Longrightarrow> length ws = length ps
     \<Longrightarrow> length ws' = length ps'"
proof (induction chunks arbitrary: ws ps)
  case Nil
  then show ?case by simp
next
  case (Cons chunk chunks)
  show ?case
  proof (cases "chunk = []")
    case True
    with Cons show ?thesis by simp
  next
    case False
    with Cons.prems(1) obtain surface pos where
      "tokenize_loop (ws @ [surface]) (ps @ [pos]) chunks = Inr (ws', ps')"
      by (auto simp add: Let_def split: if_splits)
    then show ?thesis
      using Cons.prems(2) Cons.IH [of "ws @ [surface]" "ps @ [pos]"] by simp
  qed
qed

lemma doc_tokens_lengths: "doc_tokens rt sp doc = Inr (ws, ps) \<Longrightarrow> length ws = length ps"
  using tokenize_loop_lengths [of "[]" "[]" _ ws ps]
  by (simp add: doc_tokens_def tokenize_def)

lemma PAD_neq_UNK: "PAD \<noteq> UNK"
  by (simp add: PAD_def UNK_def ustr_def)

lemma numbered_two:
  "numbered (a # b # ks) = (a, 0) # (b, 1) # zip ks [2..<Suc (Suc (length ks))]"
proof -
  have "[0..<Suc (Suc (length ks))] = 0 # [Suc 0..<Suc (Suc (length ks))]"
    by (rule upt_conv_Cons) simp
  moreover have "[Suc 0..<Suc (Suc (length ks))] = Suc 0 # [Suc (Suc 0)..<Suc (Suc (length ks))]"
    by (rule upt_conv_Cons) simp
  ultimately have "[0..<length (a # b # ks)] = 0 # 1 # [2..<Suc (Suc (length ks))]"
    by (simp add: numeral_2_eq_2 del: upt_Suc)
  then show ?thesis
    unfolding numbered_def by (simp del: upt_Suc)
qed

lemma map_of_numbered_UNK: "map_of (numbered ([PAD, UNK] @ ks)) UNK = Some 1"
  using PAD_neq_UNK by (simp add: numbered_two)

lemma word_ids_of_eq:
  assumes "map_of (word_dic sp) UNK = Some 1"
  shows "word_ids_of sp w = Inr (replicate (length w) (dict_get (word_dic sp) w 1))"
proof -
  have "word_ids_of sp w = Inr (map (\<lambda>_. dict_get (word_dic sp) w 1) [0..<length w])"
    unfolding word_ids_of_def
    by (rule mapM_Inr) (simp add: assms dict_getitem_def bind_err_def)
  then show ?thesis by (simp add: map_replicate_const)
qed

lemma pos_ids_of_eq:
  assumes "map_of (pos_dic sp) UNK = Some 1"
  shows "pos_ids_of sp (w, p) = Inr (replicate (length w) (dict_get (pos_dic sp) p 1))"
proof -
  have "pos_ids_of sp (w, p) = Inr (map (\<lambda>_. dict_get (pos_dic sp) p 1) [0..<length w])"
    unfolding pos_ids_of_def prod.case
    by (rule mapM_Inr) (simp add: assms dict_getitem_def bind_err_def)
  then show ?thesis by (simp add: map_replicate_const)
qed

lemma get_char_ids_eq:
  assumes "map_of (char_dic sp) UNK = Some 1"
  shows "get_char_ids sp w = Inr (map (\<lambda>c. dict_get (char_dic sp) [c] 1) w)"
  unfolding get_char_ids_def
  by (rule mapM_Inr) (simp add: assms dict_getitem_def bind_err_def)

lemma get_bies_value:
  assumes "bies_dic sp = bies_dic (StaticPreprocessor_init lc nn vi)"
  shows "get_bies sp word =
     (if word = [] then Inl IndexError
      else if length word = 1 then Inr [4]
      else Inr (1 # replicate (length word - 2) 2 @ [3]))"
proof -
  have "2 \<le> length word" if "word \<noteq> []" and "length word \<noteq> 1"
    using that by (cases word) (auto simp add: Suc_le_eq)
  then show ?thesis
    using assms
    by (auto simp add: get_bies_def bies_dic_init dict_getitem_def bind_err_def ustr_def
        list_setitem_def replicate_ends Let_def nat_diff_distrib')
qed

lemma get_bies_tags:
  assumes "bies_dic sp = bies_dic (StaticPreprocessor_init lc nn vi)" and "w \<noteq> []"
  shows "get_bies sp w = Inr (bies_tags w)"
  using assms(2) by (simp add: get_bies_value [OF assms(1)] bies_tags_def)

lemma length_bies_tags: "w \<noteq> [] \<Longrightarrow> length (bies_tags w) = length w"
  by (cases w) (auto simp add: bies_tags_def)

lemma length_concat_replicate:
  "length (concat (map (\<lambda>w. replicate (length w) (f w)) ws)) = length (concat ws)"
  by (induction ws) simp_all

lemma length_concat_map: "length (concat (map (map f) ws)) = length (concat ws)"
  by (induction ws) simp_all

lemma length_concat_map2:
  "length (concat (map (\<lambda>w. map (f w) w) ws)) = length (concat ws)"
  by (induction ws) simp_all

lemma length_concat_bies:
  "[] \<notin> set ws \<Longrightarrow> length (concat (map bies_tags ws)) = length (concat ws)"
  by (induction ws) (auto simp add: length_bies_tags)

lemma length_concat_zip:
  "length ws = length ps \<Longrightarrow>
     length (concat (map (\<lambda>(w, p). replicate (length w) (f p)) (zip ws ps)))
       = length (concat ws)"
  by (induction ws ps rule: list_induct2) simp_all

lemma token_features_lengths:
  assumes "length (fst tk) = length (snd tk)" and "[] \<notin> set (fst tk)"
  shows "token_features rt sp tk = (fw, fc, fb, fp, ft) \<Longrightarrow>
     length fw = length (concat (fst tk)) \<and> length fc = length (concat (fst tk)) \<and>
     length fb = length (concat (fst tk)) \<and> length fp = length (concat (fst tk)) \<and>
     length ft = length (concat (fst tk))"
  using assms
  by (auto simp add: token_features_def length_concat_replicate length_concat_map
      length_concat_map2 length_concat_bies length_concat_zip)

lemma mapM_Inl_D: "mapM f xs = Inl e \<Longrightarrow> \<exists>x \<in> set xs. f x = Inl e"
  by (induction xs) (auto split: sum.splits)

lemma get_char_types_map: "get_char_types rt = map (get_character_type rt)"
  by (rule ext) (simp add: get_char_types_def)

lemma transform_doc_eq:
  assumes unk: "map_of (word_dic sp) UNK = Some 1" "map_of (char_dic sp) UNK = Some 1"
      "map_of (pos_dic sp) UNK = Some 1"
    and bies: "bies_dic sp = bies_dic (StaticPreprocessor_init lc nn vi)"
    and tk: "doc_tokens rt sp doc = Inr tk" and ne: "[] \<notin> set (fst tk)"
  shows "transform_doc rt sp doc = Inr (token_features rt sp tk)"
proof -
  obtain ws ps where tk_eq: "tk = (ws, ps)" by (cases tk)
  have len: "length ws = length ps"
    using tk doc_tokens_lengths [of rt sp doc ws ps] by (simp add: tk_eq)
  have w: "mapM (word_ids_of sp) ws
      = Inr (map (\<lambda>w. replicate (length w) (dict_get (word_dic sp) w 1)) ws)"
    by (rule mapM_Inr) (rule word_ids_of_eq [OF unk(1)])
  have c: "mapM (get_char_ids sp) ws
      = Inr (map (\<lambda>w. map (\<lambda>c. dict_get (char_dic sp) [c] 1) w) ws)"
    by (rule mapM_Inr) (rule get_char_ids_eq [OF unk(2)])
  have b: "mapM (get_bies sp) ws = Inr (map bies_tags ws)"
  proof (rule mapM_Inr)
    fix x assume "x \<in> set ws"
    with ne have "x \<noteq> []" by (auto simp add: tk_eq)
    then show "get_bies sp x = Inr (bies_tags x)" by (rule get_bies_tags [OF bies])
  qed
  have p: "mapM (pos_ids_of sp) (zip ws ps)
      = Inr (map (\<lambda>(w, p). replicate (length w) (dict_get (pos_dic sp) p 1)) (zip ws ps))"
    by (rule mapM_Inr) (auto simp add: pos_ids_of_eq [OF unk(3)])
  have ne': "[] \<notin> set ws" using ne by (simp add: tk_eq)
  have "tokenize rt (prepare_text rt sp doc) = Inr (ws, ps)"
    using tk by (simp add: doc_tokens_def tk_eq)
  then show ?thesis
    unfolding transform_doc_def
    by (simp add: bind_err_def w c b p token_features_def tk_eq get_char_types_map
        length_concat_map length_concat_replicate length_concat_bies [OF ne']
        length_concat_zip [OF len])
qed

lemma transform_docs_eq:
  assumes unk: "map_of (word_dic sp) UNK = Some 1" "map_of (char_dic sp) UNK = Some 1"
      "map_of (pos_dic sp) UNK = Some 1"
    and bies: "bies_dic sp = bies_dic (StaticPreprocessor_init lc nn vi)"
    and toks: "corpus_tokens rt sp X = Inr toks"
    and ne: "\<forall>tk \<in> set toks. [] \<notin> set (fst tk)"
  shows "mapM (transform_doc rt sp) X = Inr (map (token_features rt sp) toks)"
proof -
  from toks have "list_all2 (\<lambda>doc tk. doc_tokens rt sp doc = Inr tk) X toks"
    unfolding corpus_tokens_def by (rule mapM_Inr_D)
  then have "list_all2 (\<lambda>doc tk. transform_doc rt sp doc = Inr (token_features rt sp tk)) X toks"
    using ne
  proof (induction rule: list_all2_induct)
    case Nil
    then show ?case by simp
  next
    case (Cons doc X tk toks)
    then show ?case
      using transform_doc_eq [OF unk bies, of rt doc tk] by simp
  qed
  then have "list_all2 (\<lambda>doc r. transform_doc rt sp doc = Inr r) X
      (map (token_features rt sp) toks)"
    by (simp add: list_all2_map2)
  then show ?thesis by (rule mapM_Inr_I)
qed

lemma fitted_unk:
  assumes "fit rt (StaticPreprocessor_init lc nn vi) X y = Inr sp"
  shows "map_of (word_dic sp) UNK = Some 1" "map_of (char_dic sp) UNK = Some 1"
    "map_of (pos_dic sp) UNK = Some 1"
    "bies_dic sp = bies_dic (StaticPreprocessor_init lc nn vi)"
proof -
  from fit_from_init [OF assms] obtain wk ck pk where
    "word_dic sp = numbered ([PAD, UNK] @ wk)" "char_dic sp = numbered ([PAD, UNK] @ ck)"
    "pos_dic sp = numbered ([PAD, UNK] @ pk)"
    "bies_dic sp = bies_dic (StaticPreprocessor_init lc nn vi)"
    by blast
  then show "map_of (word_dic sp) UNK = Some 1" "map_of (char_dic sp) UNK = Some 1"
    "map_of (pos_dic sp) UNK = Some 1"
    "bies_dic sp = bies_dic (StaticPreprocessor_init lc nn vi)"
    by (simp_all only: map_of_numbered_UNK)
qed

lemma transform_fitted:
  assumes "fit rt (StaticPreprocessor_init lc nn vi) X0 y0 = Inr sp"
    and "corpus_tokens rt sp X = Inr toks"
    and "\<forall>tk \<in> set toks. [] \<notin> set (fst tk)"
  shows "snd (transform rt sp X None) = Inr (collect (map (token_features rt sp) toks), None)"
  using transform_docs_eq [OF fitted_unk [OF assms(1)] assms(2,3)]
  by (simp add: transform_def bind_err_def)

lemma corpus_tokens_length: "corpus_tokens rt sp X = Inr toks \<Longrightarrow> length toks = length X"
  unfolding corpus_tokens_def
  by (drule mapM_Inr_D) (simp add: list_all2_lengthD)

lemma corpus_tokens_nth:
  assumes "corpus_tokens rt sp X = Inr toks" and "i < length X"
  shows "doc_tokens rt sp (X ! i) = Inr (toks ! i)"
proof -
  from assms(1) have "list_all2 (\<lambda>doc tk. doc_tokens rt sp doc = Inr tk) X toks"
    unfolding corpus_tokens_def by (rule mapM_Inr_D)
  from list_all2_nthD [OF this assms(2)] show ?thesis .
qed

section \<open>Decoding\<close>

lemma dict_getitem_absent: "\<not> dict_contains d k \<Longrightarrow> dict_getitem d k = Inl KeyError"
proof -
  assume "\<not> dict_contains d k"
  then have "map_of d k = None"
    by (simp add: dict_contains_def dict_keys_def map_of_eq_None_iff)
  then show ?thesis by (simp add: dict_getitem_def)
qed

lemma dict_getitem_error: "dict_getitem d k = Inl e \<Longrightarrow> e = KeyError"
  by (auto simp add: dict_getitem_def split: option.splits)

lemma dict_get_absent: "\<not> dict_contains d k \<Longrightarrow> dict_get d k v = v"
proof -
  assume "\<not> dict_contains d k"
  then have "map_of d k = None"
    by (simp add: dict_contains_def dict_keys_def map_of_eq_None_iff)
  then show ?thesis by (simp add: dict_get_def)
qed

lemma labels_KeyError:
  assumes "t \<in> set (concat ys)" and "\<not> dict_contains d t"
  shows "mapM (mapM (dict_getitem d)) ys = Inl KeyError"
proof -
  from assms(1) obtain s where s: "s \<in> set ys" and t: "t \<in> set s" by auto
  have inner: "mapM (dict_getitem d) s = Inl KeyError"
    using t dict_getitem_absent [OF assms(2)]
  proof (rule mapM_Inl)
    fix x' e' assume "dict_getitem d x' = Inl e'"
    then show "e' = KeyError" by (rule dict_getitem_error)
  qed
  show ?thesis
    using s inner
  proof (rule mapM_Inl)
    fix s' e' assume "mapM (dict_getitem d) s' = Inl e'"
    then obtain x where "dict_getitem d x = Inl e'" by (auto dest: mapM_Inl_D)
    then show "e' = KeyError" by (rule dict_getitem_error)
  qed
qed

lemma invert_fold:
  "length pre = n \<Longrightarrow>
   fold (\<lambda>(c, i) m. dict_set m i c) (zip ks [n..<n + length ks]) (zip [0..<n] pre)
     = zip [0..<n + length ks] (pre @ ks)"
proof (induction ks arbitrary: n pre)
  case Nil
  then show ?case by simp
next
  case (Cons k ks)
  have up: "[n..<n + length (k # ks)] = n # [Suc n..<Suc n + length ks]"
    by (simp add: upt_conv_Cons del: upt_Suc)
  have "n \<notin> set (map fst (zip [0..<n] pre))"
    using Cons.prems by simp
  then have "dict_set (zip [0..<n] pre) n k = zip [0..<n] pre @ [(n, k)]"
    by (rule dict_set_new)
  also have "\<dots> = zip [0..<Suc n] (pre @ [k])"
    using Cons.prems by simp
  finally have step: "dict_set (zip [0..<n] pre) n k = zip [0..<Suc n] (pre @ [k])" .
  have "length (pre @ [k]) = Suc n" using Cons.prems by simp
  from Cons.IH [OF this] step show ?case
    by (simp only: up fold_Cons comp_apply prod.case) simp
qed

lemma invert_numbered: "dict_invert (numbered ks) = zip [0..<length ks] ks"
  using invert_fold [of "[]" 0 ks] by (simp add: dict_invert_def numbered_def)

lemma map_of_invert_numbered:
  "i < length ks \<Longrightarrow> map_of (dict_invert (numbered ks)) i = Some (ks ! i)"
proof -
  assume i: "i < length ks"
  have "map_of (zip [0..<length ks] ks) ([0..<length ks] ! i) = Some (ks ! i)"
    by (rule map_of_zip_nth) (use i in simp_all)
  with i show ?thesis by (simp add: invert_numbered)
qed

lemma map_of_numbered_D:
  assumes "map_of (numbered ks) k = Some i"
  shows "i < length ks \<and> ks ! i = k"
proof -
  from assms have "(k, i) \<in> set (zip ks [0..<length ks])"
    unfolding numbered_def by (rule map_of_SomeD)
  then show ?thesis by (auto simp add: in_set_zip)
qed

lemma char_roundtrip:
  assumes "cd = numbered ([PAD, UNK] @ ck)"
  shows "dict_getitem (dict_invert cd) (dict_get cd [c] 1)
     = Inr (if dict_contains cd [c] then [c] else UNK)"
proof (cases "map_of cd [c]")
  case None
  then have "\<not> dict_contains cd [c]"
    by (simp add: dict_contains_def dict_keys_def map_of_eq_None_iff)
  moreover have "dict_get cd [c] 1 = 1" using None by (simp add: dict_get_def)
  moreover have "map_of (dict_invert cd) 1 = Some UNK"
    using map_of_invert_numbered [of 1 "[PAD, UNK] @ ck"] by (simp add: assms)
  ultimately show ?thesis by (simp add: dict_getitem_def)
next
  case (Some i)
  then have "dict_contains cd [c]"
    by (auto simp add: dict_contains_def dict_keys_def dest: map_of_SomeD intro: rev_image_eqI)
  moreover have "dict_get cd [c] 1 = i" using Some by (simp add: dict_get_def)
  moreover have "map_of (dict_invert cd) i = Some [c]"
    using map_of_numbered_D [of "[PAD, UNK] @ ck" "[c]" i] Some
      map_of_invert_numbered [of i "[PAD, UNK] @ ck"]
    by (simp add: assms)
  ultimately show ?thesis by (simp add: dict_getitem_def)
qed

lemma fitted_char_dic:
  assumes "fit rt (StaticPreprocessor_init lc nn vi) X y = Inr sp"
  shows "\<exists>ck. char_dic sp = numbered ([PAD, UNK] @ ck)"
  using fit_from_init [OF assms] by blast

lemma mapM_map: "mapM f (map g xs) = mapM (\<lambda>x. f (g x)) xs"
  by (induction xs) (auto split: sum.splits)

lemma inverse_chars:
  assumes "char_dic sp = numbered ([PAD, UNK] @ ck)"
  shows "inverse_transform sp (Some (map (\<lambda>tk. concat (map (\<lambda>w. map (\<lambda>c. dict_get (char_dic sp) [c] 1) w)
                                                         (fst tk))) toks)) None
     = Inr (map (\<lambda>tk. map (\<lambda>c. if dict_contains (char_dic sp) [c] then [c] else UNK)
                           (concat (fst tk))) toks)"
proof -
  have row: "mapM (dict_getitem (dict_invert (char_dic sp)))
        (concat (map (\<lambda>w. map (\<lambda>c. dict_get (char_dic sp) [c] 1) w) ws))
      = Inr (map (\<lambda>c. if dict_contains (char_dic sp) [c] then [c] else UNK) (concat ws))" for ws
  proof -
    have "mapM (\<lambda>c. dict_getitem (dict_invert (char_dic sp)) (dict_get (char_dic sp) [c] 1))
        (concat ws)
      = Inr (map (\<lambda>c. if dict_contains (char_dic sp) [c] then [c] else UNK) (concat ws))"
      by (rule mapM_Inr) (simp only: char_roundtrip [OF assms])
    moreover have "concat (map (\<lambda>w. map (\<lambda>c. dict_get (char_dic sp) [c] 1) w) ws)
        = map (\<lambda>c. dict_get (char_dic sp) [c] 1) (concat ws)"
      by (simp add: map_concat)
    ultimately show ?thesis by (simp only: mapM_map)
  qed
  have "mapM (\<lambda>tk. mapM (dict_getitem (dict_invert (char_dic sp)))
          (concat (map (\<lambda>w. map (\<lambda>c. dict_get (char_dic sp) [c] 1) w) (fst tk)))) toks
      = Inr (map (\<lambda>tk. map (\<lambda>c. if dict_contains (char_dic sp) [c] then [c] else UNK)
                           (concat (fst tk))) toks)"
    by (rule mapM_Inr) (simp only: row)
  then show ?thesis
    by (simp only: inverse_transform_def option.case Let_def mapM_map)
qed

section \<open>transform with and without labels\<close>

lemma dict_getitem_present: "dict_contains d k \<Longrightarrow> dict_getitem d k = Inr (dict_get d k v)"
proof -
  assume "dict_contains d k"
  then have "map_of d k \<noteq> None"
    by (simp add: dict_contains_def dict_keys_def map_of_eq_None_iff)
  then show ?thesis by (auto simp add: dict_getitem_def dict_get_def)
qed

lemma dict_get_if: "(if dict_contains d k then dict_get d k v else v) = dict_get d k v"
  by (simp add: dict_get_absent)

lemma labels_known:
  assumes "\<forall>t \<in> set (concat ys). dict_contains d t"
  shows "mapM (mapM (dict_getitem d)) ys = Inr (map (map (\<lambda>t. dict_get d t 0)) ys)"
proof (rule mapM_Inr)
  fix s assume s: "s \<in> set ys"
  show "mapM (dict_getitem d) s = Inr (map (\<lambda>t. dict_get d t 0) s)"
  proof (rule mapM_Inr)
    fix t assume "t \<in> set s"
    with s assms have "dict_contains d t" by auto
    then show "dict_getitem d t = Inr (dict_get d t 0)" by (rule dict_getitem_present)
  qed
qed

lemma transform_cases:
  assumes "fit rt (StaticPreprocessor_init lc nn vi) X0 y0 = Inr sp"
    and "corpus_tokens rt sp X = Inr toks"
    and "\<forall>tk \<in> set toks. [] \<notin> set (fst tk)"
  shows "snd (transform rt sp X None) = Inr (collect (map (token_features rt sp) toks), None)"
    and "\<forall>t \<in> set (concat ys). dict_contains (label_dic sp) t \<Longrightarrow>
       snd (transform rt sp X (Some ys))
         = Inr (collect (map (token_features rt sp) toks),
                Some (map (map (\<lambda>t. dict_get (label_dic sp) t 0)) ys))"
    and "t \<in> set (concat ys) \<Longrightarrow> \<not> dict_contains (label_dic sp) t \<Longrightarrow>
       snd (transform rt sp X (Some ys)) = Inl KeyError"
    and "snd (transform rt sp X y) = Inr (out, yl) \<Longrightarrow>
       out = collect (map (token_features rt sp) toks)"
proof -
  have rows: "mapM (transform_doc rt sp) X = Inr (map (token_features rt sp) toks)"
    by (rule transform_docs_eq [OF fitted_unk [OF assms(1)] assms(2,3)])
  show "snd (transform rt sp X None) = Inr (collect (map (token_features rt sp) toks), None)"
    by (simp add: transform_def bind_err_def rows)
  show "snd (transform rt sp X (Some ys))
         = Inr (collect (map (token_features rt sp) toks),
                Some (map (map (\<lambda>t. dict_get (label_dic sp) t 0)) ys))"
    if "\<forall>t \<in> set (concat ys). dict_contains (label_dic sp) t"
    using labels_known [OF that] by (simp add: transform_def bind_err_def rows)
  show "snd (transform rt sp X (Some ys)) = Inl KeyError"
    if "t \<in> set (concat ys)" and "\<not> dict_contains (label_dic sp) t"
    using labels_KeyError [OF that] by (simp add: transform_def bind_err_def rows)
  show "out = collect (map (token_features rt sp) toks)"
    if "snd (transform rt sp X y) = Inr (out, yl)"
    using that
    by (cases y) (auto simp add: transform_def bind_err_def rows split: sum.splits)
qed

lemma collect_nth:
  assumes "i < length rows" and "rows ! i = (w, c, b, p, t)"
  shows "fst (collect rows) ! i = w" "fst (snd (collect rows)) ! i = c"
    "fst (snd (snd (collect rows))) ! i = b" "fst (snd (snd (snd (collect rows)))) ! i = p"
    "snd (snd (snd (snd (collect rows)))) ! i = t"
  using assms by (simp_all add: collect_def)

lemma collect_length:
  "length (fst (collect rows)) = length rows" "length (fst (snd (collect rows))) = length rows"
  "length (fst (snd (snd (collect rows)))) = length rows"
  "length (fst (snd (snd (snd (collect rows))))) = length rows"
  "length (snd (snd (snd (snd (collect rows))))) = length rows"
  by (simp_all add: collect_def)

text \<open>The rows of the collected features, document by document.\<close>

lemma collected_rows:
  assumes "corpus_tokens rt sp X = Inr toks"
    and "\<forall>tk \<in> set toks. [] \<notin> set (fst tk)"
    and "collect (map (token_features rt sp) toks) = (xw, xc, xb, xp, xt)"
  shows "length xw = length X" "length xc = length X" "length xb = length X"
    "length xp = length X" "length xt = length X"
    and "i < length X \<Longrightarrow>
      xw ! i = concat (map (\<lambda>w. replicate (length w) (dict_get (word_dic sp) w 1))
                           (fst (toks ! i))) \<and>
      xc ! i = map (\<lambda>c. dict_get (char_dic sp) [c] 1) (concat (fst (toks ! i))) \<and>
      xb ! i = concat (map bies_tags (fst (toks ! i))) \<and>
      xp ! i = concat (map (\<lambda>(w, p). replicate (length w) (dict_get (pos_dic sp) p 1))
                           (zip (fst (toks ! i)) (snd (toks ! i)))) \<and>
      xt ! i = map (get_character_type rt) (concat (fst (toks ! i))) \<and>
      length (xw ! i) = length (concat (fst (toks ! i))) \<and>
      length (xc ! i) = length (concat (fst (toks ! i))) \<and>
      length (xb ! i) = length (concat (fst (toks ! i))) \<and>
      length (xp ! i) = length (concat (fst (toks ! i))) \<and>
      length (xt ! i) = length (concat (fst (toks ! i)))"
proof -
  let ?rows = "map (token_features rt sp) toks"
  have len: "length toks = length X"
    using assms(1) by (rule corpus_tokens_length)
  show "length xw = length X" "length xc = length X" "length xb = length X"
    "length xp = length X" "length xt = length X"
    using collect_length [of ?rows] by (simp_all add: assms(3) len)
  show "xw ! i = concat (map (\<lambda>w. replicate (length w) (dict_get (word_dic sp) w 1))
                           (fst (toks ! i))) \<and>
      xc ! i = map (\<lambda>c. dict_get (char_dic sp) [c] 1) (concat (fst (toks ! i))) \<and>
      xb ! i = concat (map bies_tags (fst (toks ! i))) \<and>
      xp ! i = concat (map (\<lambda>(w, p). replicate (length w) (dict_get (pos_dic sp) p 1))
                           (zip (fst (toks ! i)) (snd (toks ! i)))) \<and>
      xt ! i = map (get_character_type rt) (concat (fst (toks ! i))) \<and>
      length (xw ! i) = length (concat (fst (toks ! i))) \<and>
      length (xc ! i) = length (concat (fst (toks ! i))) \<and>
      length (xb ! i) = length (concat (fst (toks ! i))) \<and>
      length (xp ! i) = length (concat (fst (toks ! i))) \<and>
      length (xt ! i) = length (concat (fst (toks ! i)))"
    if i: "i < length X"
  proof -
    obtain fw fc fb fp ft where tf: "token_features rt sp (toks ! i) = (fw, fc, fb, fp, ft)"
      by (cases "token_features rt sp (toks ! i)") auto
    have "doc_tokens rt sp (X ! i) = Inr (fst (toks ! i), snd (toks ! i))"
      using corpus_tokens_nth [OF assms(1) i] by simp
    then have eq: "length (fst (toks ! i)) = length (snd (toks ! i))"
      by (rule doc_tokens_lengths)
    have ne: "[] \<notin> set (fst (toks ! i))"
      using assms(2) i len by simp
    have nth: "?rows ! i = (fw, fc, fb, fp, ft)"
      using i len tf by simp
    have i': "i < length ?rows" using i len by simp
    have comps: "xw ! i = fw" "xc ! i = fc" "xb ! i = fb" "xp ! i = fp" "xt ! i = ft"
      using collect_nth [OF i' nth] by (simp_all add: assms(3))
    have vals: "fw = concat (map (\<lambda>w. replicate (length w) (dict_get (word_dic sp) w 1))
                             (fst (toks ! i)))"
      "fc = map (\<lambda>c. dict_get (char_dic sp) [c] 1) (concat (fst (toks ! i)))"
      "fb = concat (map bies_tags (fst (toks ! i)))"
      "fp = concat (map (\<lambda>(w, p). replicate (length w) (dict_get (pos_dic sp) p 1))
                             (zip (fst (toks ! i)) (snd (toks ! i))))"
      "ft = map (get_character_type rt) (concat (fst (toks ! i)))"
      using tf by (simp_all add: token_features_def map_concat)
    show ?thesis
      using token_features_lengths [OF eq ne tf] vals by (simp only: comps)
  qed
qed

section \<open>BIES tags\<close>

text \<open>
  C2.  With the BIES dictionary every preprocessor is constructed with (S is 4, B is 1,
  I is 2, E is 3), \<open>get_bies\<close> returns for a word of one character exactly the tag Single,
  and for a word of \<open>L \<ge> 2\<close> characters Begin, then \<open>L - 2\<close> times Inside, then End; for two
  characters that is Begin, End.
\<close>

theorem get_bies_encoding:
  assumes "bies_dic sp = bies_dic (StaticPreprocessor_init lc nn vi)"
  shows "(length word = 1 \<longrightarrow> get_bies sp word = Inr [4]) \<and>
         (2 \<le> length word \<longrightarrow>
            get_bies sp word = Inr (1 # replicate (length word - 2) 2 @ [3])) \<and>
         (length word = 2 \<longrightarrow> get_bies sp word = Inr [1, 3])"
proof -
  have single: "length word = 1 \<longrightarrow> get_bies sp word = Inr [4]"
    using assms
    by (simp add: get_bies_def bies_dic_init dict_getitem_def bind_err_def ustr_def)
  have longer: "2 \<le> length word \<longrightarrow>
      get_bies sp word = Inr (1 # replicate (length word - 2) 2 @ [3])"
    using assms
    by (auto simp add: get_bies_def bies_dic_init dict_getitem_def bind_err_def ustr_def
        list_setitem_def replicate_ends Let_def nat_diff_distrib')
  have two: "length word = 2 \<longrightarrow> get_bies sp word = Inr [1, 3]"
    using longer by auto
  from single longer two show ?thesis by blast
qed

theorem get_bies_encoding_witness:
  "bies_dic (StaticPreprocessor_init True True None)
     = bies_dic (StaticPreprocessor_init True True None)
   \<and> get_bies (StaticPreprocessor_init True True None) [97] = Inr [4]
   \<and> get_bies (StaticPreprocessor_init True True None) [97, 98] = Inr [1, 3]
   \<and> get_bies (StaticPreprocessor_init True True None) [97, 98, 99, 100] = Inr [1, 2, 2, 3]"
proof -
  have len: "length [97, 98, 99, 100 :: nat] - 2 = Suc (Suc 0)" by simp
  have one: "get_bies (StaticPreprocessor_init True True None) [97] = Inr [4]"
    using get_bies_encoding [of "StaticPreprocessor_init True True None" True True None "[97]"]
    by simp
  have two: "get_bies (StaticPreprocessor_init True True None) [97, 98] = Inr [1, 3]"
    using get_bies_encoding [of "StaticPreprocessor_init True True None" True True None "[97, 98]"]
    by simp
  have four: "get_bies (StaticPreprocessor_init True True None) [97, 98, 99, 100] = Inr [1, 2, 2, 3]"
    using get_bies_encoding [of "StaticPreprocessor_init True True None" True True None
      "[97, 98, 99, 100]"]
    by (simp only: len) simp
  from one two four show ?thesis by simp
qed

section \<open>Character types\<close>

text \<open>
  C9.  \<open>get_character_type\<close> tests in this order: whitespace gives 1, digit 2, lowercase
  letter 3, uppercase letter 4, hiragana (U+3040 to U+309F) 5, katakana (U+30A0 to U+30FF)
  6, and anything else 7.  It is defined on every character and its value lies between 1
  and 7, so it is never the padding code 0.
\<close>

theorem get_character_type_priority:
  "(isspace rt ch \<longrightarrow> get_character_type rt ch = 1) \<and>
   (\<not> isspace rt ch \<and> isdigit rt ch \<longrightarrow> get_character_type rt ch = 2) \<and>
   (\<not> isspace rt ch \<and> \<not> isdigit rt ch \<and> islower rt ch \<longrightarrow> get_character_type rt ch = 3) \<and>
   (\<not> isspace rt ch \<and> \<not> isdigit rt ch \<and> \<not> islower rt ch \<and> isupper rt ch
      \<longrightarrow> get_character_type rt ch = 4) \<and>
   (\<not> isspace rt ch \<and> \<not> isdigit rt ch \<and> \<not> islower rt ch \<and> \<not> isupper rt ch
      \<and> 0x3040 \<le> ch \<and> ch \<le> 0x309F \<longrightarrow> get_character_type rt ch = 5) \<and>
   (\<not> isspace rt ch \<and> \<not> isdigit rt ch \<and> \<not> islower rt ch \<and> \<not> isupper rt ch
      \<and> 0x30A0 \<le> ch \<and> ch \<le> 0x30FF \<longrightarrow> get_character_type rt ch = 6) \<and>
   (\<not> isspace rt ch \<and> \<not> isdigit rt ch \<and> \<not> islower rt ch \<and> \<not> isupper rt ch
      \<and> \<not> (0x3040 \<le> ch \<and> ch \<le> 0x30FF) \<longrightarrow> get_character_type rt ch = 7) \<and>
   get_character_type rt ch \<in> {1..7} \<and> get_character_type rt ch \<noteq> 0"
  by (simp add: get_character_type_def is_hiragana_def is_katakana_def)

theorem get_character_type_priority_witness:
  "get_character_type sample_runtime 32 = 1 \<and> get_character_type sample_runtime 53 = 2
   \<and> get_character_type sample_runtime 97 = 3 \<and> get_character_type sample_runtime 65 = 4
   \<and> get_character_type sample_runtime 12354 = 5 \<and> get_character_type sample_runtime 12450 = 6
   \<and> get_character_type sample_runtime 19968 = 7"
  using get_character_type_priority [of sample_runtime 32]
    get_character_type_priority [of sample_runtime 53]
    get_character_type_priority [of sample_runtime 97]
    get_character_type_priority [of sample_runtime 65]
    get_character_type_priority [of sample_runtime 12354]
    get_character_type_priority [of sample_runtime 12450]
    get_character_type_priority [of sample_runtime 19968]
  by (simp add: sample_runtime_def)

section \<open>transform writes to no field\<close>

text \<open>
  C10.  Whatever the preprocessor and the inputs, and whether \<open>transform\<close> returns or
  raises, the object it leaves is the object it found: the word, character, POS, label,
  BIES and character-type dictionaries and the two flags are unchanged.
\<close>

theorem transform_frame:
  "fst (transform rt sp X y) = sp \<and>
   word_dic (fst (transform rt sp X y)) = word_dic sp \<and>
   char_dic (fst (transform rt sp X y)) = char_dic sp \<and>
   pos_dic (fst (transform rt sp X y)) = pos_dic sp \<and>
   label_dic (fst (transform rt sp X y)) = label_dic sp \<and>
   bies_dic (fst (transform rt sp X y)) = bies_dic sp \<and>
   char_type_dic (fst (transform rt sp X y)) = char_type_dic sp \<and>
   lowercase (fst (transform rt sp X y)) = lowercase sp \<and>
   num_norm (fst (transform rt sp X y)) = num_norm sp"
  by (simp add: transform_def)

section \<open>The fitted preprocessor at work\<close>

lemmas sample_defs = fit_def fit_doc_def tokenize_def sample_runtime_def sample_parse_def ustr_def
  rstrip_def splitlines_def is_linebreak_def prepare_text_def StaticPreprocessor_init_def
  normalize_number_def fit_word_def fit_char_def fit_pos_def fit_label_def dict_contains_def
  dict_keys_def PAD_def UNK_def sample_fitted_def doc_tokens_def corpus_tokens_def

lemma sample_fit:
  "fit sample_runtime (StaticPreprocessor_init True True None) [[ustr ''Ab c'']]
     (Some [[ustr ''B'', ustr ''I'', ustr ''O'']]) = Inr sample_fitted"
  by (simp add: sample_defs)

lemma sample_tokens:
  "corpus_tokens sample_runtime sample_fitted [[ustr ''ab zc'']]
     = Inr [([ustr ''ab'', ustr ''zc''], [ustr ''N-a-b'', ustr ''N-a-b''])]"
  by (simp add: sample_defs)

lemma sample_nonempty:
  "\<forall>tk \<in> set [([ustr ''ab'', ustr ''zc''], [ustr ''N-a-b'', ustr ''N-a-b''])]. [] \<notin> set (fst tk)"
  by (simp add: ustr_def)

lemma sample_words_nonempty: "[] \<notin> set [ustr ''ab'', ustr ''zc'']"
  by (simp add: ustr_def)

lemmas transform_defs = transform_def transform_doc_def word_ids_of_def pos_ids_of_def
  get_char_ids_def get_char_types_def get_bies_def get_character_type_def is_hiragana_def
  is_katakana_def bind_err_def dict_getitem_def dict_get_def list_setitem_def collect_def
  inverse_transform_def dict_invert_def

lemma sample_transform:
  "snd (transform sample_runtime sample_fitted [[ustr ''ab zc'']] None)
     = Inr (([[2, 2, 1, 1]], [[2, 3, 1, 4]], [[1, 3, 1, 3]], [[2, 2, 2, 2]], [[3, 3, 3, 3]]), None)"
  by (simp add: sample_defs transform_defs)

lemma sample_labels_known:
  "\<forall>t \<in> set (concat [[ustr ''B'', ustr ''I'', ustr ''O'', ustr ''O'']]).
     dict_contains (label_dic sample_fitted) t"
  by (simp add: sample_defs)

text \<open>
  C1.  Let the preprocessor be fitted, and let the tagger's output for every document be
  well formed: each line a surface and its features, no surface empty.  Then \<open>transform\<close>
  returns, called without labels and called with labels that the label dictionary has,
  the same five lists with one sequence per document, and no call of it returns any
  other; for each document the five sequences have the same length, the number of
  characters of its words; the word sequence is the ID of each word (that of the unknown
  sentinel for an unseen word) repeated once per character of the word, and the POS
  sequence is the ID of the word's POS tag repeated likewise.
\<close>

theorem transform_aligned:
  assumes "fit rt (StaticPreprocessor_init lc nn vi) X0 y0 = Inr sp"
    and "corpus_tokens rt sp X = Inr toks"
    and "\<forall>tk \<in> set toks. [] \<notin> set (fst tk)"
  shows "\<exists>xw xc xb xp xt.
     snd (transform rt sp X None) = Inr ((xw, xc, xb, xp, xt), None) \<and>
     (\<forall>ys. (\<forall>t \<in> set (concat ys). dict_contains (label_dic sp) t) \<longrightarrow>
        snd (transform rt sp X (Some ys))
          = Inr ((xw, xc, xb, xp, xt), Some (map (map (\<lambda>t. dict_get (label_dic sp) t 0)) ys))) \<and>
     (\<forall>y out yl. snd (transform rt sp X y) = Inr (out, yl) \<longrightarrow> out = (xw, xc, xb, xp, xt)) \<and>
     length xw = length X \<and> length xc = length X \<and> length xb = length X \<and>
     length xp = length X \<and> length xt = length X \<and>
     (\<forall>i < length X.
        length (xw ! i) = length (concat (fst (toks ! i))) \<and>
        length (xc ! i) = length (concat (fst (toks ! i))) \<and>
        length (xb ! i) = length (concat (fst (toks ! i))) \<and>
        length (xp ! i) = length (concat (fst (toks ! i))) \<and>
        length (xt ! i) = length (concat (fst (toks ! i))) \<and>
        xw ! i = concat (map (\<lambda>w. replicate (length w) (dict_get (word_dic sp) w 1))
                             (fst (toks ! i))) \<and>
        xp ! i = concat (map (\<lambda>(w, p). replicate (length w) (dict_get (pos_dic sp) p 1))
                             (zip (fst (toks ! i)) (snd (toks ! i)))))"
proof -
  obtain xw xc xb xp xt where
    out: "collect (map (token_features rt sp) toks) = (xw, xc, xb, xp, xt)"
    by (cases "collect (map (token_features rt sp) toks)") auto
  note cases = transform_cases [OF assms]
  note rows = collected_rows [OF assms(2,3) out]
  have plain: "snd (transform rt sp X None) = Inr ((xw, xc, xb, xp, xt), None)"
    using cases(1) by (simp add: out)
  have labelled: "snd (transform rt sp X (Some ys))
          = Inr ((xw, xc, xb, xp, xt), Some (map (map (\<lambda>t. dict_get (label_dic sp) t 0)) ys))"
    if "\<forall>t \<in> set (concat ys). dict_contains (label_dic sp) t" for ys
    using cases(2) [OF that] by (simp add: out)
  have only: "out' = (xw, xc, xb, xp, xt)"
    if "snd (transform rt sp X y) = Inr (out', yl)" for y out' yl
    using cases(4) [OF that] by (simp add: out)
  have row: "length (xw ! i) = length (concat (fst (toks ! i))) \<and>
        length (xc ! i) = length (concat (fst (toks ! i))) \<and>
        length (xb ! i) = length (concat (fst (toks ! i))) \<and>
        length (xp ! i) = length (concat (fst (toks ! i))) \<and>
        length (xt ! i) = length (concat (fst (toks ! i))) \<and>
        xw ! i = concat (map (\<lambda>w. replicate (length w) (dict_get (word_dic sp) w 1))
                             (fst (toks ! i))) \<and>
        xp ! i = concat (map (\<lambda>(w, p). replicate (length w) (dict_get (pos_dic sp) p 1))
                             (zip (fst (toks ! i)) (snd (toks ! i))))"
    if "i < length X" for i
    using rows(6) [OF that] by blast
  from plain labelled only rows(1-5) row show ?thesis by blast
qed

theorem transform_aligned_witness:
  "fit sample_runtime (StaticPreprocessor_init True True None) [[ustr ''Ab c'']]
     (Some [[ustr ''B'', ustr ''I'', ustr ''O'']]) = Inr sample_fitted \<and>
   corpus_tokens sample_runtime sample_fitted [[ustr ''ab zc'']]
     = Inr [([ustr ''ab'', ustr ''zc''], [ustr ''N-a-b'', ustr ''N-a-b''])] \<and>
   [] \<notin> set [ustr ''ab'', ustr ''zc''] \<and>
   snd (transform sample_runtime sample_fitted [[ustr ''ab zc'']] None)
     = Inr (([[2, 2, 1, 1]], [[2, 3, 1, 4]], [[1, 3, 1, 3]], [[2, 2, 2, 2]], [[3, 3, 3, 3]]), None) \<and>
   snd (transform sample_runtime sample_fitted [[ustr ''ab zc'']]
          (Some [[ustr ''B'', ustr ''I'', ustr ''O'', ustr ''O'']]))
     = Inr (([[2, 2, 1, 1]], [[2, 3, 1, 4]], [[1, 3, 1, 3]], [[2, 2, 2, 2]], [[3, 3, 3, 3]]),
            Some [[1, 2, 3, 3]])"
proof -
  from transform_aligned [OF sample_fit sample_tokens sample_nonempty]
  obtain xw xc xb xp xt where
    res: "snd (transform sample_runtime sample_fitted [[ustr ''ab zc'']] None)
       = Inr ((xw, xc, xb, xp, xt), None)" and
    lab: "\<forall>ys. (\<forall>t \<in> set (concat ys). dict_contains (label_dic sample_fitted) t) \<longrightarrow>
        snd (transform sample_runtime sample_fitted [[ustr ''ab zc'']] (Some ys))
          = Inr ((xw, xc, xb, xp, xt),
                 Some (map (map (\<lambda>t. dict_get (label_dic sample_fitted) t 0)) ys))"
    by blast
  from res sample_transform
  have eq: "(xw, xc, xb, xp, xt)
      = ([[2, 2, 1, 1]], [[2, 3, 1, 4]], [[1, 3, 1, 3]], [[2, 2, 2, 2]], [[3, 3, 3, 3]])"
    by simp
  have ids: "map (map (\<lambda>t. dict_get (label_dic sample_fitted) t 0))
        [[ustr ''B'', ustr ''I'', ustr ''O'', ustr ''O'']] = [[1, 2, 3, 3]]"
    by (simp add: sample_fitted_def dict_get_def ustr_def PAD_def)
  from lab sample_labels_known
  have "snd (transform sample_runtime sample_fitted [[ustr ''ab zc'']]
          (Some [[ustr ''B'', ustr ''I'', ustr ''O'', ustr ''O'']]))
     = Inr ((xw, xc, xb, xp, xt),
            Some (map (map (\<lambda>t. dict_get (label_dic sample_fitted) t 0))
               [[ustr ''B'', ustr ''I'', ustr ''O'', ustr ''O'']]))"
    by blast
  then have "snd (transform sample_runtime sample_fitted [[ustr ''ab zc'']]
          (Some [[ustr ''B'', ustr ''I'', ustr ''O'', ustr ''O'']]))
     = Inr (([[2, 2, 1, 1]], [[2, 3, 1, 4]], [[1, 3, 1, 3]], [[2, 2, 2, 2]], [[3, 3, 3, 3]]),
            Some [[1, 2, 3, 3]])"
    by (simp only: eq ids)
  with sample_fit sample_tokens sample_words_nonempty sample_transform show ?thesis by blast
qed

lemma sample_inverse:
  "inverse_transform sample_fitted (Some [[2, 3, 1, 4]]) None
     = Inr [[ustr ''a'', ustr ''b'', UNK, ustr ''c'']]"
  by (simp add: sample_defs transform_defs)

lemma sample_transform_labelled:
  "snd (transform sample_runtime sample_fitted [[ustr ''ab zc'']]
          (Some [[ustr ''B'', ustr ''I'', ustr ''O'', ustr ''O'']]))
     = Inr (([[2, 2, 1, 1]], [[2, 3, 1, 4]], [[1, 3, 1, 3]], [[2, 2, 2, 2]], [[3, 3, 3, 3]]),
            Some [[1, 2, 3, 3]])"
  by (simp add: sample_defs transform_defs)

text \<open>
  C3.  For a fitted preprocessor the unknown sentinel has the ID 1 in the word, character
  and POS dictionaries, and a word, a character or a POS tag that is no key of its
  dictionary gets that ID.  On documents whose tagger output is well formed \<open>transform\<close>
  returns, whatever of their words, characters and tags the dictionaries know, without
  labels and with labels that are keys of the label dictionary; what it returns has, for
  every word, character and POS tag that is no key, the ID 1 at the characters concerned
  and the dictionary's ID elsewhere.  With a label that is no key of the label dictionary
  it raises \<open>KeyError\<close>.
\<close>

theorem unknown_handling:
  assumes "fit rt (StaticPreprocessor_init lc nn vi) X0 y0 = Inr sp"
  shows "dict_getitem (word_dic sp) UNK = Inr 1 \<and> dict_getitem (char_dic sp) UNK = Inr 1 \<and>
     dict_getitem (pos_dic sp) UNK = Inr 1 \<and>
     (\<not> dict_contains (word_dic sp) w \<longrightarrow> word_ids_of sp w = Inr (replicate (length w) 1)) \<and>
     (\<exists>ids. get_char_ids sp w = Inr ids \<and> length ids = length w \<and>
        (\<forall>i < length w. \<not> dict_contains (char_dic sp) [w ! i] \<longrightarrow> ids ! i = 1)) \<and>
     (\<not> dict_contains (pos_dic sp) p \<longrightarrow> pos_ids_of sp (w, p) = Inr (replicate (length w) 1)) \<and>
     (corpus_tokens rt sp X = Inr toks \<and> (\<forall>tk \<in> set toks. [] \<notin> set (fst tk)) \<longrightarrow>
        (\<exists>xw xc xb xp xt.
           snd (transform rt sp X None) = Inr ((xw, xc, xb, xp, xt), None) \<and>
           (\<forall>ys. (\<forall>t \<in> set (concat ys). dict_contains (label_dic sp) t) \<longrightarrow>
              snd (transform rt sp X (Some ys))
                = Inr ((xw, xc, xb, xp, xt),
                       Some (map (map (\<lambda>t. dict_get (label_dic sp) t 0)) ys))) \<and>
           (\<forall>ys t. t \<in> set (concat ys) \<and> \<not> dict_contains (label_dic sp) t \<longrightarrow>
              snd (transform rt sp X (Some ys)) = Inl KeyError) \<and>
           length xw = length X \<and> length xc = length X \<and> length xp = length X \<and>
           (\<forall>i < length X.
              xw ! i = concat (map (\<lambda>w. replicate (length w)
                            (if dict_contains (word_dic sp) w then dict_get (word_dic sp) w 1 else 1))
                          (fst (toks ! i))) \<and>
              xc ! i = map (\<lambda>c. if dict_contains (char_dic sp) [c]
                                  then dict_get (char_dic sp) [c] 1 else 1)
                          (concat (fst (toks ! i))) \<and>
              xp ! i = concat (map (\<lambda>(w, p). replicate (length w)
                            (if dict_contains (pos_dic sp) p then dict_get (pos_dic sp) p 1 else 1))
                          (zip (fst (toks ! i)) (snd (toks ! i)))))))"
proof -
  note unk = fitted_unk [OF assms]
  have sentinel: "dict_getitem (word_dic sp) UNK = Inr 1" "dict_getitem (char_dic sp) UNK = Inr 1"
    "dict_getitem (pos_dic sp) UNK = Inr 1"
    using unk(1-3) by (simp_all add: dict_getitem_def)
  have word: "word_ids_of sp w = Inr (replicate (length w) 1)"
    if "\<not> dict_contains (word_dic sp) w"
    using word_ids_of_eq [OF unk(1), of w] dict_get_absent [OF that, of 1] by simp
  have pos: "pos_ids_of sp (w, p) = Inr (replicate (length w) 1)"
    if "\<not> dict_contains (pos_dic sp) p"
    using pos_ids_of_eq [OF unk(3), of w p] dict_get_absent [OF that, of 1] by simp
  have char: "\<exists>ids. get_char_ids sp w = Inr ids \<and> length ids = length w \<and>
        (\<forall>i < length w. \<not> dict_contains (char_dic sp) [w ! i] \<longrightarrow> ids ! i = 1)"
    using get_char_ids_eq [OF unk(2), of w] by (simp add: dict_get_absent)
  have run: "\<exists>xw xc xb xp xt.
           snd (transform rt sp X None) = Inr ((xw, xc, xb, xp, xt), None) \<and>
           (\<forall>ys. (\<forall>t \<in> set (concat ys). dict_contains (label_dic sp) t) \<longrightarrow>
              snd (transform rt sp X (Some ys))
                = Inr ((xw, xc, xb, xp, xt),
                       Some (map (map (\<lambda>t. dict_get (label_dic sp) t 0)) ys))) \<and>
           (\<forall>ys t. t \<in> set (concat ys) \<and> \<not> dict_contains (label_dic sp) t \<longrightarrow>
              snd (transform rt sp X (Some ys)) = Inl KeyError) \<and>
           length xw = length X \<and> length xc = length X \<and> length xp = length X \<and>
           (\<forall>i < length X.
              xw ! i = concat (map (\<lambda>w. replicate (length w)
                            (if dict_contains (word_dic sp) w then dict_get (word_dic sp) w 1 else 1))
                          (fst (toks ! i))) \<and>
              xc ! i = map (\<lambda>c. if dict_contains (char_dic sp) [c]
                                  then dict_get (char_dic sp) [c] 1 else 1)
                          (concat (fst (toks ! i))) \<and>
              xp ! i = concat (map (\<lambda>(w, p). replicate (length w)
                            (if dict_contains (pos_dic sp) p then dict_get (pos_dic sp) p 1 else 1))
                          (zip (fst (toks ! i)) (snd (toks ! i)))))"
    if toks: "corpus_tokens rt sp X = Inr toks" and ne: "\<forall>tk \<in> set toks. [] \<notin> set (fst tk)"
  proof -
    obtain xw xc xb xp xt where
      out: "collect (map (token_features rt sp) toks) = (xw, xc, xb, xp, xt)"
      by (cases "collect (map (token_features rt sp) toks)") auto
    note cases = transform_cases [OF assms toks ne]
    note rows = collected_rows [OF toks ne out]
    have plain: "snd (transform rt sp X None) = Inr ((xw, xc, xb, xp, xt), None)"
      using cases(1) by (simp add: out)
    have labelled: "snd (transform rt sp X (Some ys))
          = Inr ((xw, xc, xb, xp, xt), Some (map (map (\<lambda>t. dict_get (label_dic sp) t 0)) ys))"
      if "\<forall>t \<in> set (concat ys). dict_contains (label_dic sp) t" for ys
      using cases(2) [OF that] by (simp add: out)
    have err: "snd (transform rt sp X (Some ys)) = Inl KeyError"
      if "t \<in> set (concat ys) \<and> \<not> dict_contains (label_dic sp) t" for ys t
      using that cases(3) [of t ys] by blast
    have row: "xw ! i = concat (map (\<lambda>w. replicate (length w)
                            (if dict_contains (word_dic sp) w then dict_get (word_dic sp) w 1 else 1))
                          (fst (toks ! i))) \<and>
              xc ! i = map (\<lambda>c. if dict_contains (char_dic sp) [c]
                                  then dict_get (char_dic sp) [c] 1 else 1)
                          (concat (fst (toks ! i))) \<and>
              xp ! i = concat (map (\<lambda>(w, p). replicate (length w)
                            (if dict_contains (pos_dic sp) p then dict_get (pos_dic sp) p 1 else 1))
                          (zip (fst (toks ! i)) (snd (toks ! i))))"
      if "i < length X" for i
      using rows(6) [OF that] by (simp only: dict_get_if)
    from plain labelled err rows(1,2,4) row show ?thesis by blast
  qed
  from sentinel word pos char run show ?thesis by blast
qed

theorem unknown_handling_witness:
  "fit sample_runtime (StaticPreprocessor_init True True None) [[ustr ''Ab c'']]
     (Some [[ustr ''B'', ustr ''I'', ustr ''O'']]) = Inr sample_fitted \<and>
   \<not> dict_contains (word_dic sample_fitted) (ustr ''zc'') \<and>
   word_ids_of sample_fitted (ustr ''zc'') = Inr [1, 1] \<and>
   \<not> dict_contains (pos_dic sample_fitted) (ustr ''V'') \<and>
   pos_ids_of sample_fitted (ustr ''zc'', ustr ''V'') = Inr [1, 1] \<and>
   corpus_tokens sample_runtime sample_fitted [[ustr ''ab zc'']]
     = Inr [([ustr ''ab'', ustr ''zc''], [ustr ''N-a-b'', ustr ''N-a-b''])] \<and>
   [] \<notin> set [ustr ''ab'', ustr ''zc''] \<and>
   snd (transform sample_runtime sample_fitted [[ustr ''ab zc'']] None)
     = Inr (([[2, 2, 1, 1]], [[2, 3, 1, 4]], [[1, 3, 1, 3]], [[2, 2, 2, 2]], [[3, 3, 3, 3]]), None) \<and>
   snd (transform sample_runtime sample_fitted [[ustr ''ab zc'']]
          (Some [[ustr ''B'', ustr ''I'', ustr ''O'', ustr ''O'']]))
     = Inr (([[2, 2, 1, 1]], [[2, 3, 1, 4]], [[1, 3, 1, 3]], [[2, 2, 2, 2]], [[3, 3, 3, 3]]),
            Some [[1, 2, 3, 3]]) \<and>
   ustr ''Q'' \<in> set (concat [[ustr ''Q'']]) \<and>
   \<not> dict_contains (label_dic sample_fitted) (ustr ''Q'') \<and>
   snd (transform sample_runtime sample_fitted [[ustr ''ab zc'']] (Some [[ustr ''Q'']]))
     = Inl KeyError"
proof -
  have w: "\<not> dict_contains (word_dic sample_fitted) (ustr ''zc'')"
    by (simp add: sample_defs)
  have p: "\<not> dict_contains (pos_dic sample_fitted) (ustr ''V'')"
    by (simp add: sample_defs)
  have l: "ustr ''Q'' \<in> set (concat [[ustr ''Q'']])"
    "\<not> dict_contains (label_dic sample_fitted) (ustr ''Q'')"
    by (simp_all add: sample_defs)
  have len: "replicate (length (ustr ''zc'')) (1::nat) = [1, 1]"
    by (simp add: ustr_def)
  note inst = unknown_handling [OF sample_fit, of "ustr ''zc''" "ustr ''V''" "[[ustr ''ab zc'']]"
      "[([ustr ''ab'', ustr ''zc''], [ustr ''N-a-b'', ustr ''N-a-b''])]"]
  from inst w have words: "word_ids_of sample_fitted (ustr ''zc'') = Inr [1, 1]"
    by (simp only: len) blast
  from inst p have poses: "pos_ids_of sample_fitted (ustr ''zc'', ustr ''V'') = Inr [1, 1]"
    by (simp only: len) blast
  from inst sample_tokens sample_nonempty obtain xw xc xb xp xt where
    res: "snd (transform sample_runtime sample_fitted [[ustr ''ab zc'']] None)
       = Inr ((xw, xc, xb, xp, xt), None)" and
    lab: "\<forall>ys. (\<forall>t \<in> set (concat ys). dict_contains (label_dic sample_fitted) t) \<longrightarrow>
        snd (transform sample_runtime sample_fitted [[ustr ''ab zc'']] (Some ys))
          = Inr ((xw, xc, xb, xp, xt),
                 Some (map (map (\<lambda>t. dict_get (label_dic sample_fitted) t 0)) ys))" and
    err: "\<forall>ys t. t \<in> set (concat ys) \<and> \<not> dict_contains (label_dic sample_fitted) t \<longrightarrow>
        snd (transform sample_runtime sample_fitted [[ustr ''ab zc'']] (Some ys)) = Inl KeyError"
    by blast
  from res sample_transform
  have eq: "(xw, xc, xb, xp, xt)
      = ([[2, 2, 1, 1]], [[2, 3, 1, 4]], [[1, 3, 1, 3]], [[2, 2, 2, 2]], [[3, 3, 3, 3]])"
    by simp
  have ids: "map (map (\<lambda>t. dict_get (label_dic sample_fitted) t 0))
        [[ustr ''B'', ustr ''I'', ustr ''O'', ustr ''O'']] = [[1, 2, 3, 3]]"
    by (simp add: sample_fitted_def dict_get_def ustr_def PAD_def)
  from lab sample_labels_known
  have "snd (transform sample_runtime sample_fitted [[ustr ''ab zc'']]
          (Some [[ustr ''B'', ustr ''I'', ustr ''O'', ustr ''O'']]))
     = Inr ((xw, xc, xb, xp, xt),
            Some (map (map (\<lambda>t. dict_get (label_dic sample_fitted) t 0))
               [[ustr ''B'', ustr ''I'', ustr ''O'', ustr ''O'']]))"
    by blast
  then have labelled: "snd (transform sample_runtime sample_fitted [[ustr ''ab zc'']]
          (Some [[ustr ''B'', ustr ''I'', ustr ''O'', ustr ''O'']]))
     = Inr (([[2, 2, 1, 1]], [[2, 3, 1, 4]], [[1, 3, 1, 3]], [[2, 2, 2, 2]], [[3, 3, 3, 3]]),
            Some [[1, 2, 3, 3]])"
    by (simp only: eq ids)
  from err l
  have failed: "snd (transform sample_runtime sample_fitted [[ustr ''ab zc'']] (Some [[ustr ''Q'']]))
     = Inl KeyError"
    by blast
  from words poses labelled failed sample_fit sample_tokens sample_words_nonempty
    sample_transform w p l
  show ?thesis by blast
qed

text \<open>
  C7 as stated fails: a character the fitted character dictionary does not have is encoded
  as the unknown sentinel and decoded as the string \<open><UNK>\<close>, not as itself.  Here the
  preprocessor fitted on \<open>Ab c\<close> transforms \<open>ab zc\<close>.
\<close>

theorem roundtrip_counterexample:
  "fit sample_runtime (StaticPreprocessor_init True True None) [[ustr ''Ab c'']]
     (Some [[ustr ''B'', ustr ''I'', ustr ''O'']]) = Inr sample_fitted \<and>
   corpus_tokens sample_runtime sample_fitted [[ustr ''ab zc'']]
     = Inr [([ustr ''ab'', ustr ''zc''], [ustr ''N-a-b'', ustr ''N-a-b''])] \<and>
   snd (transform sample_runtime sample_fitted [[ustr ''ab zc'']] None)
     = Inr (([[2, 2, 1, 1]], [[2, 3, 1, 4]], [[1, 3, 1, 3]], [[2, 2, 2, 2]], [[3, 3, 3, 3]]), None) \<and>
   inverse_transform sample_fitted (Some [[2, 3, 1, 4]]) None
     = Inr [[ustr ''a'', ustr ''b'', UNK, ustr ''c'']] \<and>
   inverse_transform sample_fitted (Some [[2, 3, 1, 4]]) None
     \<noteq> Inr [[ustr ''a'', ustr ''b'', ustr ''z'', ustr ''c'']]"
proof -
  have "UNK \<noteq> ustr ''z''" by (simp add: UNK_def ustr_def)
  then show ?thesis
    using sample_fit sample_tokens sample_transform sample_inverse by simp
qed

text \<open>
  C7, amended.  For a fitted preprocessor and documents whose tagger output is well
  formed, \<open>inverse_transform\<close> of the character IDs that \<open>transform\<close> returns, called with
  or without labels, gives, for every document, the characters of its words in order,
  each character that is a key of the character dictionary as itself and every other
  character as \<open><UNK>\<close>.
\<close>

theorem inverse_transform_chars:
  assumes "fit rt (StaticPreprocessor_init lc nn vi) X0 y0 = Inr sp"
    and "corpus_tokens rt sp X = Inr toks"
    and "\<forall>tk \<in> set toks. [] \<notin> set (fst tk)"
    and "snd (transform rt sp X y) = Inr ((xw, xc, xb, xp, xt), yl)"
  shows "inverse_transform sp (Some xc) None
     = Inr (map (\<lambda>tk. map (\<lambda>c. if dict_contains (char_dic sp) [c] then [c] else UNK)
                           (concat (fst tk))) toks)"
proof -
  from fitted_char_dic [OF assms(1)] obtain ck where
    cd: "char_dic sp = numbered ([PAD, UNK] @ ck)" by blast
  have "(xw, xc, xb, xp, xt) = collect (map (token_features rt sp) toks)"
    by (rule transform_cases(4) [OF assms(1-3) assms(4)])
  then have "xc = map (\<lambda>tk. concat (map (\<lambda>w. map (\<lambda>c. dict_get (char_dic sp) [c] 1) w) (fst tk))) toks"
    by (auto simp add: collect_def token_features_def)
  then show ?thesis
    using inverse_chars [OF cd, of toks] by simp
qed

theorem inverse_transform_chars_witness:
  "fit sample_runtime (StaticPreprocessor_init True True None) [[ustr ''Ab c'']]
     (Some [[ustr ''B'', ustr ''I'', ustr ''O'']]) = Inr sample_fitted \<and>
   corpus_tokens sample_runtime sample_fitted [[ustr ''ab zc'']]
     = Inr [([ustr ''ab'', ustr ''zc''], [ustr ''N-a-b'', ustr ''N-a-b''])] \<and>
   [] \<notin> set [ustr ''ab'', ustr ''zc''] \<and>
   snd (transform sample_runtime sample_fitted [[ustr ''ab zc'']]
          (Some [[ustr ''B'', ustr ''I'', ustr ''O'', ustr ''O'']]))
     = Inr (([[2, 2, 1, 1]], [[2, 3, 1, 4]], [[1, 3, 1, 3]], [[2, 2, 2, 2]], [[3, 3, 3, 3]]),
            Some [[1, 2, 3, 3]]) \<and>
   inverse_transform sample_fitted (Some [[2, 3, 1, 4]]) None
     = Inr [[ustr ''a'', ustr ''b'', UNK, ustr ''c'']]"
proof -
  have "map (\<lambda>tk. map (\<lambda>c. if dict_contains (char_dic sample_fitted) [c] then [c] else UNK)
                           (concat (fst tk)))
          [([ustr ''ab'', ustr ''zc''], [ustr ''N-a-b'', ustr ''N-a-b''])]
      = [[ustr ''a'', ustr ''b'', UNK, ustr ''c'']]"
    by (simp add: sample_defs)
  with inverse_transform_chars [OF sample_fit sample_tokens sample_nonempty
      sample_transform_labelled]
  have "inverse_transform sample_fitted (Some [[2, 3, 1, 4]]) None
     = Inr [[ustr ''a'', ustr ''b'', UNK, ustr ''c'']]"
    by simp
  with sample_fit sample_tokens sample_words_nonempty sample_transform_labelled
  show ?thesis by blast
qed

lemma fold_fit_word_frame:
  "bies_dic (fold fit_word ws sp) = bies_dic sp \<and>
   char_type_dic (fold fit_word ws sp) = char_type_dic sp"
  by (induction ws arbitrary: sp) (simp_all add: fit_word_frame)

lemma fit_doc_frame:
  assumes "fit_doc rt doc sp = Inr sp'"
  shows "bies_dic sp' = bies_dic sp \<and> char_type_dic sp' = char_type_dic sp"
proof -
  from assms obtain ws ps where "sp' = fold fit_pos ps (fold fit_word ws sp)"
    by (auto simp add: fit_doc_def split: sum.splits)
  then show ?thesis
    using fold_fit_word_frame [of ws sp] by (simp add: fold_fit_pos)
qed

lemma fit_docs_frame:
  "fit_docs rt X sp = Inr sp' \<Longrightarrow>
     bies_dic sp' = bies_dic sp \<and> char_type_dic sp' = char_type_dic sp \<and>
     lowercase sp' = lowercase sp \<and> num_norm sp' = num_norm sp"
proof (induction X arbitrary: sp)
  case Nil
  then show ?case by simp
next
  case (Cons doc X)
  from Cons.prems obtain sp1 where
    step: "fit_doc rt doc sp = Inr sp1" and rest: "fit_docs rt X sp1 = Inr sp'"
    by (auto split: sum.splits)
  from Cons.IH [OF rest] fit_doc_frame [OF step] fit_doc_flags [OF step]
  show ?case by simp
qed

lemma fit_frame:
  assumes "fit rt sp X y = Inr sp'"
  shows "bies_dic sp' = bies_dic sp \<and> char_type_dic sp' = char_type_dic sp \<and>
     lowercase sp' = lowercase sp \<and> num_norm sp' = num_norm sp"
proof -
  from assms obtain sp1 ys where
    docs: "fit_docs rt X sp = Inr sp1" and
    sp': "sp' = fold fit_label (iter_set rt (concat ys)) sp1"
    by (auto simp add: fit_def split: sum.splits option.splits)
  from fit_docs_frame [OF docs] show ?thesis
    by (simp add: sp' fold_fit_label)
qed

text \<open>
  C6 as stated fails: the BIES dictionary that the constructor makes has four entries, and
  the padding sentinel is no key of it.
\<close>

theorem bies_dic_counterexample:
  "bies_dic (StaticPreprocessor_init True True None)
     = [(ustr ''B'', 1), (ustr ''I'', 2), (ustr ''E'', 3), (ustr ''S'', 4)] \<and>
   length (bies_dic (StaticPreprocessor_init True True None)) = 4 \<and>
   \<not> dict_contains (bies_dic (StaticPreprocessor_init True True None)) PAD \<and>
   dict_getitem (bies_dic (StaticPreprocessor_init True True None)) PAD = Inl KeyError \<and>
   dict_getitem [(PAD, 0), (ustr ''B'', 1), (ustr ''I'', 2), (ustr ''E'', 3), (ustr ''S'', 4 :: nat)] PAD
     = Inr 0"
  by (simp add: StaticPreprocessor_init_def dict_contains_def dict_keys_def dict_getitem_def
      ustr_def PAD_def)

text \<open>
  C6, amended.  The BIES dictionary of every preprocessor is the fixed mapping of the
  four tags, B to 1, I to 2, E to 3 and S to 4: the constructor makes it so, and neither
  \<open>fit\<close> nor \<open>transform\<close> changes it.  No key has the ID 0.
\<close>

theorem bies_dic_fixed:
  "bies_dic (StaticPreprocessor_init lc nn vi)
     = [(ustr ''B'', 1), (ustr ''I'', 2), (ustr ''E'', 3), (ustr ''S'', 4)] \<and>
   0 \<notin> set (map snd (bies_dic (StaticPreprocessor_init lc nn vi))) \<and>
   (fit rt sp X y = Inr sp' \<longrightarrow> bies_dic sp' = bies_dic sp) \<and>
   bies_dic (fst (transform rt sp X' y')) = bies_dic sp"
  using fit_frame [of rt sp X y sp']
  by (auto simp add: StaticPreprocessor_init_def transform_def)

theorem bies_dic_fixed_witness:
  "fit sample_runtime (StaticPreprocessor_init True True None) [[ustr ''Ab c'']]
     (Some [[ustr ''B'', ustr ''I'', ustr ''O'']]) = Inr sample_fitted \<and>
   bies_dic sample_fitted = [(ustr ''B'', 1), (ustr ''I'', 2), (ustr ''E'', 3), (ustr ''S'', 4)]"
  using bies_dic_fixed [of True True None sample_runtime "StaticPreprocessor_init True True None"
      "[[ustr ''Ab c'']]" "Some [[ustr ''B'', ustr ''I'', ustr ''O'']]" sample_fitted "[]" None]
    sample_fit
  by simp

text \<open>
  C4: the source at the label \<open><PAD>\<close>.  \<open>fit\<close> on no documents and the one label sequence
  \<open>[<PAD>]\<close> leaves a label dictionary in which the padding sentinel has the ID 1 and no key
  has the ID 0; with the further label \<open>O\<close>, met after it, both labels have the ID 1.
\<close>

theorem fit_pad_label:
  "fit sample_runtime (StaticPreprocessor_init True True None) [] (Some [[PAD]])
     = Inr ((StaticPreprocessor_init True True None)\<lparr>label_dic := [(PAD, 1)]\<rparr>) \<and>
   fit sample_runtime (StaticPreprocessor_init True True None) [] (Some [[PAD, ustr ''O'']])
     = Inr ((StaticPreprocessor_init True True None)\<lparr>label_dic := [(PAD, 1), (ustr ''O'', 1)]\<rparr>)"
  by (simp add: sample_defs)





lemma fold_max_insert: "fold max xs (a::nat) = Max (insert a (set xs))"
proof (induction xs arbitrary: a)
  case Nil
  then show ?case by simp
next
  case (Cons x xs)
  have "Max (insert (max x a) (set xs)) = Max (insert a (insert x (set xs)))"
    by (cases "xs = []") (simp_all add: max.commute max.left_commute)
  with Cons show ?case by simp
qed

lemma fold_max_longest: "seqs \<noteq> [] \<Longrightarrow> fold max (map length seqs) 0 = longest seqs"
  by (simp add: fold_max_insert longest_def)

lemma pad_sequences_eq:
  "seqs \<noteq> [] \<Longrightarrow> pad_sequences seqs = Inr (map (pad_to (longest seqs)) seqs)"
proof -
  assume ne: "seqs \<noteq> []"
  have "(\<lambda>s. s @ replicate (longest seqs - length s) 0) = pad_to (longest seqs)"
    by (rule ext) (simp add: pad_to_def)
  with ne show ?thesis
    by (simp add: pad_sequences_def fold_max_longest Let_def)
qed

lemma length_le_longest: "s \<in> set seqs \<Longrightarrow> length s \<le> longest seqs"
  by (simp add: longest_def)

lemma pad_to_shape:
  assumes "s \<in> set seqs"
  shows "length (pad_to (longest seqs) s) = longest seqs"
    "take (length s) (pad_to (longest seqs) s) = s"
    "drop (length s) (pad_to (longest seqs) s) = replicate (longest seqs - length s) 0"
  using length_le_longest [OF assms] by (simp_all add: pad_to_def)

lemma longest_aligned: "map length a = map length b \<Longrightarrow> longest a = longest b"
  by (simp add: longest_def)

lemma to_categorical_eq:
  assumes "0 < n" and "\<forall>i \<in> set row. i < n"
  shows "to_categorical row n = Inr (map (one_hot n) row)"
proof -
  have "mapM (\<lambda>i. if i < n then Inr (one_hot n i) else Inl IndexError) row
      = Inr (map (one_hot n) row)"
    by (rule mapM_Inr) (use assms(2) in simp)
  with assms(1) show ?thesis by (simp add: to_categorical_def)
qed

lemma one_hot_shape:
  "length (one_hot n i) = n"
  "j < n \<Longrightarrow> one_hot n i ! j = (if j = i then 1 else 0)"
  by (simp_all add: one_hot_def)

lemma set_pad_to: "set (pad_to m s) \<subseteq> insert 0 (set s)"
  by (auto simp add: pad_to_def)

lemma labels_one_hot:
  assumes "ys \<noteq> []" and "0 < n" and "\<forall>s \<in> set ys. \<forall>i \<in> set s. i < n"
  shows "bind_err (pad_sequences ys) (\<lambda>y1.
           bind_err (mapM (\<lambda>row. to_categorical row n) y1) (\<lambda>y2. Inr (out, Some y2)))
     = Inr (out, Some (map (\<lambda>s. map (one_hot n) (pad_to (longest ys) s)) ys))"
proof -
  have "mapM (\<lambda>s. to_categorical (pad_to (longest ys) s) n) ys
      = Inr (map (\<lambda>s. map (one_hot n) (pad_to (longest ys) s)) ys)"
  proof (rule mapM_Inr)
    fix s assume "s \<in> set ys"
    with assms(2,3) have "\<forall>i \<in> set (pad_to (longest ys) s). i < n"
      using set_pad_to [of "longest ys" s] by auto
    with assms(2) show "to_categorical (pad_to (longest ys) s) n
        = Inr (map (one_hot n) (pad_to (longest ys) s))"
      by (rule to_categorical_eq)
  qed
  moreover have "mapM f (map g xs) = mapM (\<lambda>x. f (g x)) xs"
    for f :: "nat list \<Rightarrow> error + nat list list" and g :: "nat list \<Rightarrow> nat list" and xs
    by (induction xs) (auto split: sum.splits)
  ultimately show ?thesis
    by (simp add: pad_sequences_eq [OF assms(1)] bind_err_def)
qed

text \<open>
  C8.  On a batch that has at least one document, \<open>DynamicPreprocessor.transform\<close> returns
  each of the five lists with every sequence extended on the right with 0 to the length
  of the longest sequence of that list, which for sequences of the same lengths in the
  five lists is one and the same length: every row has that length, begins with the
  sequence it comes from and goes on with 0 only, and there are as many rows as
  documents.  Labels, when given with IDs below \<open>n_labels\<close>, are padded in the same way
  and every ID, the padding 0 included, becomes the row of width \<open>n_labels\<close> that is 1 at
  the ID and 0 elsewhere.
\<close>

theorem dynamic_transform_pads:
  assumes "words \<noteq> []" and "chars \<noteq> []" and "bies \<noteq> []" and "poses \<noteq> []" and "types \<noteq> []"
    and "\<forall>ys. y = Some ys \<longrightarrow>
           ys \<noteq> [] \<and> 0 < n_labels dp \<and> (\<forall>s \<in> set ys. \<forall>i \<in> set s. i < n_labels dp)"
  shows "DynamicPreprocessor_transform dp (words, chars, bies, poses, types) y
       = Inr ((map (pad_to (longest words)) words, map (pad_to (longest chars)) chars,
               map (pad_to (longest bies)) bies, map (pad_to (longest poses)) poses,
               map (pad_to (longest types)) types),
              map_option (\<lambda>ys. map (\<lambda>s. map (one_hot (n_labels dp)) (pad_to (longest ys) s)) ys) y) \<and>
     (\<forall>seqs s. s \<in> set seqs \<longrightarrow>
        length (pad_to (longest seqs) s) = longest seqs \<and>
        take (length s) (pad_to (longest seqs) s) = s \<and>
        drop (length s) (pad_to (longest seqs) s) = replicate (longest seqs - length s) 0) \<and>
     (map length chars = map length words \<longrightarrow> longest chars = longest words) \<and>
     (map length bies = map length words \<longrightarrow> longest bies = longest words) \<and>
     (map length poses = map length words \<longrightarrow> longest poses = longest words) \<and>
     (map length types = map length words \<longrightarrow> longest types = longest words) \<and>
     (\<forall>i j. length (one_hot (n_labels dp) i) = n_labels dp \<and>
        (j < n_labels dp \<longrightarrow> one_hot (n_labels dp) i ! j = (if j = i then 1 else 0)))"
proof -
  have main: "DynamicPreprocessor_transform dp (words, chars, bies, poses, types) y
       = Inr ((map (pad_to (longest words)) words, map (pad_to (longest chars)) chars,
               map (pad_to (longest bies)) bies, map (pad_to (longest poses)) poses,
               map (pad_to (longest types)) types),
              map_option (\<lambda>ys. map (\<lambda>s. map (one_hot (n_labels dp)) (pad_to (longest ys) s)) ys) y)"
  proof (cases y)
    case None
    then show ?thesis
      by (simp add: DynamicPreprocessor_transform_def bind_err_def
          pad_sequences_eq [OF assms(1)] pad_sequences_eq [OF assms(2)]
          pad_sequences_eq [OF assms(3)] pad_sequences_eq [OF assms(4)]
          pad_sequences_eq [OF assms(5)])
  next
    case (Some ys)
    with assms(6) have ys: "ys \<noteq> []" "0 < n_labels dp"
      "\<forall>s \<in> set ys. \<forall>i \<in> set s. i < n_labels dp"
      by simp_all
    have feats: "bind_err (pad_sequences words) (\<lambda>w. bind_err (pad_sequences chars) (\<lambda>c.
        bind_err (pad_sequences bies) (\<lambda>b. bind_err (pad_sequences poses) (\<lambda>p.
        bind_err (pad_sequences types) (\<lambda>t. k w c b p t)))))
      = k (map (pad_to (longest words)) words) (map (pad_to (longest chars)) chars)
          (map (pad_to (longest bies)) bies) (map (pad_to (longest poses)) poses)
          (map (pad_to (longest types)) types)"
      for k :: "nat list list \<Rightarrow> nat list list \<Rightarrow> nat list list \<Rightarrow> nat list list \<Rightarrow> nat list list
          \<Rightarrow> error + features \<times> nat list list list option"
      by (simp add: bind_err_def
          pad_sequences_eq [OF assms(1)] pad_sequences_eq [OF assms(2)]
          pad_sequences_eq [OF assms(3)] pad_sequences_eq [OF assms(4)]
          pad_sequences_eq [OF assms(5)])
    show ?thesis
      unfolding DynamicPreprocessor_transform_def prod.case Some option.case
      by (simp only: feats labels_one_hot [OF ys] option.map)
  qed
  from main pad_to_shape longest_aligned one_hot_shape show ?thesis
    by (intro conjI allI impI) (assumption | simp)+
qed

theorem dynamic_transform_pads_witness:
  "DynamicPreprocessor_transform \<lparr>n_labels = 4\<rparr>
     ([[5, 6, 7], [2, 3, 4, 5, 6], [8, 9]], [[5, 6, 7], [2, 3, 4, 5, 6], [8, 9]],
      [[2, 3, 4], [2, 3, 3, 3, 4], [2, 4]], [[2, 2, 2], [3, 3, 3, 3, 3], [2, 2]],
      [[3, 3, 3], [3, 3, 3, 3, 3], [3, 3]])
     (Some [[2, 3, 3], [2, 2, 2, 2, 3], [3, 2]])
   = Inr (([[5, 6, 7, 0, 0], [2, 3, 4, 5, 6], [8, 9, 0, 0, 0]],
           [[5, 6, 7, 0, 0], [2, 3, 4, 5, 6], [8, 9, 0, 0, 0]],
           [[2, 3, 4, 0, 0], [2, 3, 3, 3, 4], [2, 4, 0, 0, 0]],
           [[2, 2, 2, 0, 0], [3, 3, 3, 3, 3], [2, 2, 0, 0, 0]],
           [[3, 3, 3, 0, 0], [3, 3, 3, 3, 3], [3, 3, 0, 0, 0]]),
          Some [[[0, 0, 1, 0], [0, 0, 0, 1], [0, 0, 0, 1], [1, 0, 0, 0], [1, 0, 0, 0]],
                [[0, 0, 1, 0], [0, 0, 1, 0], [0, 0, 1, 0], [0, 0, 1, 0], [0, 0, 0, 1]],
                [[0, 0, 0, 1], [0, 0, 1, 0], [1, 0, 0, 0], [1, 0, 0, 0], [1, 0, 0, 0]]])"
proof -
  have l3: "longest [[5, 6, 7], [2, 3, 4, 5, 6], [8, 9 :: nat]] = 5"
    "longest [[2, 3, 4], [2, 3, 3, 3, 4], [2, 4 :: nat]] = 5"
    "longest [[2, 2, 2], [3, 3, 3, 3, 3], [2, 2 :: nat]] = 5"
    "longest [[3, 3, 3], [3, 3, 3, 3, 3], [3, 3 :: nat]] = 5"
    "longest [[2, 3, 3], [2, 2, 2, 2, 3], [3, 2 :: nat]] = 5"
    by (simp_all add: longest_def)
  have hyp: "\<forall>ys. Some [[2, 3, 3], [2, 2, 2, 2, 3], [3, 2 :: nat]] = Some ys \<longrightarrow>
           ys \<noteq> [] \<and> 0 < n_labels \<lparr>n_labels = 4\<rparr> \<and>
           (\<forall>s \<in> set ys. \<forall>i \<in> set s. i < n_labels \<lparr>n_labels = 4\<rparr>)"
    by simp
  have oh: "one_hot 4 0 = [1, 0, 0, 0]" "one_hot 4 2 = [0, 0, 1, 0]" "one_hot 4 3 = [0, 0, 0, 1]"
    by (simp_all add: one_hot_def upt_rec)
  have pads: "pad_to 5 [5, 6, 7] = [5, 6, 7, 0, 0]" "pad_to 5 [2, 3, 4, 5, 6] = [2, 3, 4, 5, 6]"
    "pad_to 5 [8, 9] = [8, 9, 0, 0, 0]" "pad_to 5 [2, 3, 4] = [2, 3, 4, 0, 0]"
    "pad_to 5 [2, 3, 3, 3, 4] = [2, 3, 3, 3, 4]" "pad_to 5 [2, 4] = [2, 4, 0, 0, 0]"
    "pad_to 5 [2, 2, 2] = [2, 2, 2, 0, 0]" "pad_to 5 [3, 3, 3, 3, 3] = [3, 3, 3, 3, 3]"
    "pad_to 5 [2, 2] = [2, 2, 0, 0, 0]" "pad_to 5 [3, 3, 3] = [3, 3, 3, 0, 0]"
    "pad_to 5 [3, 3] = [3, 3, 0, 0, 0]" "pad_to 5 [2, 3, 3] = [2, 3, 3, 0, 0]"
    "pad_to 5 [2, 2, 2, 2, 3] = [2, 2, 2, 2, 3]" "pad_to 5 [3, 2] = [3, 2, 0, 0, 0]"
    by (simp_all add: pad_to_def numeral_2_eq_2 numeral_3_eq_3)
  have ne: "[[5, 6, 7], [2, 3, 4, 5, 6], [8, 9 :: nat]] \<noteq> []"
    "[[2, 3, 4], [2, 3, 3, 3, 4], [2, 4 :: nat]] \<noteq> []"
    "[[2, 2, 2], [3, 3, 3, 3, 3], [2, 2 :: nat]] \<noteq> []"
    "[[3, 3, 3], [3, 3, 3, 3, 3], [3, 3 :: nat]] \<noteq> []"
    by simp_all
  from dynamic_transform_pads [OF ne(1) ne(1) ne(2) ne(3) ne(4) hyp, THEN conjunct1]
  show ?thesis
    by (simp only: l3 pads oh option.map list.map dynamic_preprocessor.simps)
qed

end
